theory Spec2Isabelle
  imports Main "HOL-Library.Multiset"
begin

unbundle bit_operations_syntax

section \<open>Values of the JavaScript program\<close>

subsection \<open>Dates\<close>

text \<open>
  The program compares \<open>Date\<close> objects with \<open><\<close> and \<open>>\<close>. JavaScript converts both
  operands to their time value (milliseconds since the epoch) first; an invalid date
  (for instance \<open>new Date(undefined)\<close>, the date of a review without \<open>submitted_at\<close>)
  has the time value NaN, and every comparison with NaN is false. A timestamp field of a
  record is modelled by the \<open>Date\<close> that \<open>new Date(field)\<close> builds from it.
\<close>

datatype date = Invalid_Date | Date int

fun date_less :: "date \<Rightarrow> date \<Rightarrow> bool" where
  "date_less (Date a) (Date b) = (a < b)"
| "date_less _ _ = False"

definition date_greater :: "date \<Rightarrow> date \<Rightarrow> bool" where
  "date_greater a b = date_less b a"

text \<open>
  \<open>x & y\<close> on two booleans converts them to the numbers 0 and 1 and takes the bitwise
  conjunction; the resulting number is truthy when it is not 0.
\<close>

definition bitand_bool :: "bool \<Rightarrow> bool \<Rightarrow> int" where
  "bitand_bool a b = of_bool a AND of_bool b"

definition truthy :: "int \<Rightarrow> bool" where
  "truthy n = (n \<noteq> 0)"

subsection \<open>Numbers\<close>

text \<open>
  The sums of \<open>getSummary\<close> are JavaScript numbers, that is IEEE doubles; the values
  that occur are natural numbers or, after an overflow, \<open>Infinity\<close>. \<open>x + y\<close> is the
  exact sum rounded to the nearest double, ties to the even significand. A natural number
  below \<open>2^53\<close> is a double; a larger one keeps its 53 leading bits, the rest (the
  \<open>excess_bits\<close> low bits) being rounded away; from \<open>2^1024\<close> on the result is
  \<open>Infinity\<close>.
\<close>

datatype number = Finite nat | Infinity

function excess_bits :: "nat \<Rightarrow> nat" where
  "excess_bits n = (if n < 2 ^ 53 then 0 else Suc (excess_bits (n div 2)))"
  by pat_completeness auto
termination
  by (relation "measure (\<lambda>n. n)") auto

declare excess_bits.simps [simp del]

definition round_double :: "nat \<Rightarrow> number" where
  "round_double n =
     (let e = excess_bits n; q = n div 2 ^ e; r = n mod 2 ^ e;
          m = (if 2 * r < 2 ^ e \<or> (2 * r = 2 ^ e \<and> even q) then q else q + 1) * 2 ^ e
      in if m < 2 ^ 1024 then Finite m else Infinity)"

text \<open>\<open>x += n\<close> for a sum \<open>x\<close> and a counter \<open>n\<close> of a detailed row.\<close>

definition add_number :: "number \<Rightarrow> nat \<Rightarrow> number" where
  "add_number x n = (case x of Finite a \<Rightarrow> round_double (a + n) | Infinity \<Rightarrow> Infinity)"

subsection \<open>Plain objects used as dictionaries\<close>

text \<open>
  An object literal \<open>{}\<close> is modelled by the list of its own properties in creation order.
  Reading \<open>obj[k]\<close> finds an own property first and otherwise the property of that name of
  \<open>Object.prototype\<close>, whose value is a function (or, for \<open>__proto__\<close>, the prototype
  object itself) and therefore truthy.
\<close>

type_synonym 'v object = "(string \<times> 'v) list"

definition Object_prototype :: "string list" where
  "Object_prototype =
     [''constructor'', ''__defineGetter__'', ''__defineSetter__'', ''hasOwnProperty'',
      ''__lookupGetter__'', ''__lookupSetter__'', ''isPrototypeOf'', ''propertyIsEnumerable'',
      ''toString'', ''valueOf'', ''__proto__'', ''toLocaleString'']"

definition inherited :: "string \<Rightarrow> bool" where
  "inherited k = (k \<in> set Object_prototype)"

definition own :: "'v object \<Rightarrow> string \<Rightarrow> bool" where
  "own obj k = (k \<in> set (map fst obj))"

text \<open>\<open>!obj[k]\<close> for an object whose own values are all truthy (objects, or \<open>true\<close>).\<close>

definition absent :: "'v object \<Rightarrow> string \<Rightarrow> bool" where
  "absent obj k = (\<not> own obj k \<and> \<not> inherited k)"

text \<open>\<open>if (!obj[k]) { obj[k] = v }\<close>: the assignment creates a new own property.\<close>

definition ensure :: "string \<Rightarrow> 'v \<Rightarrow> 'v object \<Rightarrow> 'v object" where
  "ensure k v obj = (if absent obj k then obj @ [(k, v)] else obj)"

text \<open>
  \<open>obj[k].field += n\<close> and the like: the object stored under \<open>k\<close> is changed in place.
  When \<open>k\<close> is not an own property the write lands on the inherited object and no own
  property of \<open>obj\<close> changes.
\<close>

definition update_at :: "string \<Rightarrow> ('v \<Rightarrow> 'v) \<Rightarrow> 'v object \<Rightarrow> 'v object" where
  "update_at k f obj = map (\<lambda>(k', v). if k' = k then (k', f v) else (k', v)) obj"

text \<open>
  \<open>Object.keys\<close> lists the own properties whose name is an array index (the canonical
  decimal numeral of an integer below \<open>2^32 - 1\<close>) in ascending numeric order, then all
  other names in creation order.
\<close>

definition is_digit :: "char \<Rightarrow> bool" where
  "is_digit c = (48 \<le> (of_char c :: nat) \<and> (of_char c :: nat) \<le> 57)"

definition decimal :: "string \<Rightarrow> nat" where
  "decimal k = foldl (\<lambda>n c. 10 * n + (of_char c - 48)) 0 k"

fun canonical :: "string \<Rightarrow> bool" where
  "canonical [] = False"
| "canonical [c] = is_digit c"
| "canonical (c # cs) = (is_digit c \<and> c \<noteq> CHR ''0'' \<and> list_all is_digit cs)"

definition is_index :: "string \<Rightarrow> bool" where
  "is_index k = (canonical k \<and> decimal k < 2 ^ 32 - 1)"

definition own_entries :: "'v object \<Rightarrow> 'v object" where
  "own_entries obj =
     sort_key (\<lambda>e. decimal (fst e)) (filter (\<lambda>e. is_index (fst e)) obj)
       @ filter (\<lambda>e. \<not> is_index (fst e)) obj"

subsection \<open>Strings\<close>

text \<open>
  A JavaScript string is modelled by the list of the bytes of its UTF-8 encoding. The
  program only concatenates strings, compares them for equality and splits them at \<open>/\<close>;
  the encoding is injective and the byte of \<open>/\<close> occurs in it only for \<open>/\<close> itself,
  so these three operations agree with their counterparts on lists.

  \<open>s.split('/')\<close>: the pieces between the separators, empty pieces included.
\<close>

fun split :: "char \<Rightarrow> string \<Rightarrow> string list" where
  "split c [] = [[]]"
| "split c (x # xs) =
     (if x = c then [] # split c xs
      else (case split c xs of [] \<Rightarrow> [[x]] | p # ps \<Rightarrow> (x # p) # ps))"

text \<open>
  Element \<open>i\<close> of an array destructuring. A missing element is \<open>undefined\<close>, which a
  template literal and a property name render as the text \<open>undefined\<close>; the keys split by
  this program always have three pieces (lemma \<open>length_split_key\<close>).
\<close>

definition element :: "string list \<Rightarrow> nat \<Rightarrow> string" where
  "element parts i = (if i < length parts then parts ! i else ''undefined'')"

section \<open>Records of the program\<close>

record review =
  state :: string
  reviewer :: string
  submited_at :: date

record pull_request =
  owner :: string
  repo :: string
  number :: nat
  pr_state :: string
  created_at :: date
  author :: string
  reviews :: "review list"

record counters =
  created :: nat
  commented :: nat
  approved :: nat

text \<open>A row of the detailed table: \<open>{ owner, repo, author, ...grouped[key] }\<close>.\<close>

record stat_row =
  row_owner :: string
  row_repo :: string
  row_author :: string
  row_created :: nat
  row_commented :: nat
  row_approved :: nat

section \<open>getDetailedStats\<close>

text \<open>The template literal \<open>`${a}/${b}/${c}`\<close>.\<close>

definition key3 :: "string \<Rightarrow> string \<Rightarrow> string \<Rightarrow> string" where
  "key3 a b c = a @ ''/'' @ b @ ''/'' @ c"

text \<open>\<open>new Date(x) > dateFrom & new Date(x) < dateTo\<close>\<close>

definition validInterval :: "date \<Rightarrow> date \<Rightarrow> date \<Rightarrow> int" where
  "validInterval x dateFrom dateTo =
     bitand_bool (date_greater x dateFrom) (date_less x dateTo)"

text \<open>
  The counters of \<open>getDetailedStats\<close> start at 0 and grow by 1 at most once per pull
  request and key. An array has fewer than \<open>2^32\<close> elements, so they stay below
  \<open>2^53\<close>, where adding 1 is exact: they are natural numbers.
\<close>

definition zero :: counters where
  "zero = \<lparr>created = 0, commented = 0, approved = 0\<rparr>"

text \<open>
  The state of the \<open>forEach\<close> over one pull request's reviews: the accumulator of the
  enclosing \<open>reduce\<close> and the two marker objects, each given by the keys set to \<open>true\<close>.
\<close>

record review_pass =
  acc :: "counters object"
  reviewsCommented :: "string list"
  reviewsApproved :: "string list"

definition marked :: "string list \<Rightarrow> string \<Rightarrow> bool" where
  "marked m k = (k \<in> set m \<or> inherited k)"

definition review_step :: "date \<Rightarrow> date \<Rightarrow> pull_request \<Rightarrow> review_pass \<Rightarrow> review \<Rightarrow> review_pass" where
  "review_step dateFrom dateTo pr s rv =
     (let validReviewInterval = validInterval (submited_at rv) dateFrom dateTo;
          alignReview = (author pr \<noteq> reviewer rv)
      in if truthy validReviewInterval \<and> alignReview then
           let reviewerKey = key3 (owner pr) (repo pr) (reviewer rv);
               acc1 = ensure reviewerKey zero (acc s)
           in if state rv = ''COMMENTED'' \<and> \<not> marked (reviewsCommented s) reviewerKey then
                s\<lparr>acc := update_at reviewerKey (\<lambda>c. c\<lparr>commented := commented c + 1\<rparr>) acc1,
                  reviewsCommented := reviewsCommented s @ [reviewerKey]\<rparr>
              else if state rv = ''APPROVED'' \<and> \<not> marked (reviewsApproved s) reviewerKey then
                s\<lparr>acc := update_at reviewerKey (\<lambda>c. c\<lparr>approved := approved c + 1\<rparr>) acc1,
                  reviewsApproved := reviewsApproved s @ [reviewerKey]\<rparr>
              else s\<lparr>acc := acc1\<rparr>
         else s)"

text \<open>The body of the \<open>reduce\<close> callback for one pull request.\<close>

definition pr_step :: "date \<Rightarrow> date \<Rightarrow> counters object \<Rightarrow> pull_request \<Rightarrow> counters object" where
  "pr_step dateFrom dateTo a pr =
     (let key = key3 (owner pr) (repo pr) (author pr);
          validPullRequestInterval = validInterval (created_at pr) dateFrom dateTo;
          a1 = (if truthy validPullRequestInterval
                then update_at key (\<lambda>c. c\<lparr>created := created c + 1\<rparr>) (ensure key zero a)
                else a)
      in acc (foldl (review_step dateFrom dateTo pr)
                \<lparr>acc = a1, reviewsCommented = [], reviewsApproved = []\<rparr> (reviews pr)))"

definition grouped :: "pull_request list \<Rightarrow> date \<Rightarrow> date \<Rightarrow> counters object" where
  "grouped pullRequests dateFrom dateTo = foldl (pr_step dateFrom dateTo) [] pullRequests"

definition to_row :: "string \<times> counters \<Rightarrow> stat_row" where
  "to_row e =
     (let parts = split (CHR ''/'') (fst e)
      in \<lparr>row_owner = element parts 0, row_repo = element parts 1, row_author = element parts 2,
          row_created = created (snd e), row_commented = commented (snd e),
          row_approved = approved (snd e)\<rparr>)"

definition getDetailedStats :: "pull_request list \<Rightarrow> date \<Rightarrow> date \<Rightarrow> stat_row list" where
  "getDetailedStats pullRequests dateFrom dateTo =
     map to_row (own_entries (grouped pullRequests dateFrom dateTo))"

section \<open>getSummary\<close>

datatype error = TypeError

text \<open>A JavaScript \<open>Set\<close> of strings, in insertion order; its \<open>size\<close> is the length.\<close>

definition set_add :: "string \<Rightarrow> string list \<Rightarrow> string list" where
  "set_add x s = (if x \<in> set s then s else s @ [x])"

record totals =
  pull_requests :: number
  repos :: "string list"
  acc_commented :: number
  acc_approved :: number
  reposReviewed :: "string list"

record summary_row =
  sum_author :: string
  sum_pull_requests :: number
  sum_repos :: nat
  sum_commented :: number
  sum_approved :: number
  sum_repos_reviewed :: nat

definition empty_totals :: totals where
  "empty_totals =
     \<lparr>pull_requests = Finite 0, repos = [], acc_commented = Finite 0, acc_approved = Finite 0,
      reposReviewed = []\<rparr>"

definition repo_name :: "stat_row \<Rightarrow> string" where
  "repo_name item = row_owner item @ ''/'' @ row_repo item"

definition add_item :: "stat_row \<Rightarrow> totals \<Rightarrow> totals" where
  "add_item item t =
     \<lparr>pull_requests = add_number (pull_requests t) (row_created item),
      repos = (if row_created item > 0 then set_add (repo_name item) (repos t) else repos t),
      acc_commented = add_number (acc_commented t) (row_commented item),
      acc_approved = add_number (acc_approved t) (row_approved item),
      reposReviewed = (if row_commented item > 0 \<or> row_approved item > 0
                       then set_add (repo_name item) (reposReviewed t) else reposReviewed t)\<rparr>"

text \<open>
  The body of the \<open>reduce\<close> callback. When \<open>item.author\<close> names a property of
  \<open>Object.prototype\<close>, \<open>acc[item.author]\<close> is that inherited function or object: it is
  truthy, so no totals are created; the three \<open>+=\<close> write to the inherited object; its
  \<open>repos\<close> and \<open>reposReviewed\<close> are \<open>undefined\<close>, so calling \<open>.add\<close> on them throws.
  What the \<open>+=\<close> leave on the inherited object is NaN, which is falsy and is not read
  back by any later lookup of these functions, so it is not part of the state modelled.
\<close>

definition summary_step :: "totals object \<Rightarrow> stat_row \<Rightarrow> error + totals object" where
  "summary_step a item =
     (let a1 = ensure (row_author item) empty_totals a
      in if own a1 (row_author item) then Inr (update_at (row_author item) (add_item item) a1)
         else if row_created item > 0 then Inl TypeError
         else if row_commented item > 0 \<or> row_approved item > 0 then Inl TypeError
         else Inr a1)"

fun reduce_summary :: "totals object \<Rightarrow> stat_row list \<Rightarrow> error + totals object" where
  "reduce_summary a [] = Inr a"
| "reduce_summary a (item # items) =
     (case summary_step a item of Inl e \<Rightarrow> Inl e | Inr a' \<Rightarrow> reduce_summary a' items)"

definition to_summary :: "string \<times> totals \<Rightarrow> summary_row" where
  "to_summary e =
     \<lparr>sum_author = fst e, sum_pull_requests = pull_requests (snd e),
      sum_repos = length (repos (snd e)), sum_commented = acc_commented (snd e),
      sum_approved = acc_approved (snd e), sum_repos_reviewed = length (reposReviewed (snd e))\<rparr>"

definition getSummary :: "stat_row list \<Rightarrow> error + summary_row list" where
  "getSummary stats =
     (case reduce_summary [] stats of
        Inl e \<Rightarrow> Inl e
      | Inr finalResult \<Rightarrow> Inr (map to_summary (own_entries finalResult)))"

section \<open>filterPullRequestList\<close>

text \<open>The fields of a pull request of the API that the filter reads.\<close>

record api_pull_request =
  api_state :: string
  api_created_at :: date

definition filterPullRequestList :: "api_pull_request \<Rightarrow> date \<Rightarrow> date \<Rightarrow> bool" where
  "filterPullRequestList pr dateFrom dateTo =
     (let open = (api_state pr = ''open'');
          createdAfter = date_greater (api_created_at pr) dateFrom;
          createdBefore = date_less (api_created_at pr) dateTo
      in open \<or> (createdAfter \<and> createdBefore))"

section \<open>Example inputs\<close>

text \<open>
  Small inputs in the shape of the specification's scenarios; times are written as day
  numbers, with the window from day 15 to day 23.
\<close>

definition example_review :: "string \<Rightarrow> string \<Rightarrow> int \<Rightarrow> review" where
  "example_review st who t = \<lparr>state = st, reviewer = who, submited_at = Date t\<rparr>"

definition example_pr ::
  "string \<Rightarrow> string \<Rightarrow> string \<Rightarrow> string \<Rightarrow> int \<Rightarrow> review list \<Rightarrow> pull_request" where
  "example_pr ow rp who st t rs =
     \<lparr>owner = ow, repo = rp, number = 1, pr_state = st, created_at = Date t, author = who,
      reviews = rs\<rparr>"

definition fresh_pass :: "counters object \<Rightarrow> review_pass" where
  "fresh_pass a = \<lparr>acc = a, reviewsCommented = [], reviewsApproved = []\<rparr>"

section \<open>Vocabulary of the statements\<close>

text \<open>The counters stored under a key, all zero when the key has no entry.\<close>

definition counts_of :: "counters object \<Rightarrow> string \<Rightarrow> counters" where
  "counts_of obj k = (case map_of obj k of None \<Rightarrow> zero | Some c \<Rightarrow> c)"

text \<open>The strict window \<open>dateFrom < x < dateTo\<close>.\<close>

definition in_window :: "date \<Rightarrow> date \<Rightarrow> date \<Rightarrow> bool" where
  "in_window x dateFrom dateTo = (date_less dateFrom x \<and> date_less x dateTo)"

text \<open>A qualifying review: submitted inside the window by someone other than the author.\<close>

definition qualifies :: "date \<Rightarrow> date \<Rightarrow> pull_request \<Rightarrow> review \<Rightarrow> bool" where
  "qualifies dateFrom dateTo pr rv =
     (in_window (submited_at rv) dateFrom dateTo \<and> reviewer rv \<noteq> author pr)"

definition reviewer_key :: "pull_request \<Rightarrow> review \<Rightarrow> string" where
  "reviewer_key pr rv = key3 (owner pr) (repo pr) (reviewer rv)"

definition author_key :: "pull_request \<Rightarrow> string" where
  "author_key pr = key3 (owner pr) (repo pr) (author pr)"

text \<open>Some qualifying review among \<open>rs\<close> has state \<open>st\<close> and the key \<open>k\<close>.\<close>

definition hit :: "string \<Rightarrow> date \<Rightarrow> date \<Rightarrow> pull_request \<Rightarrow> review list \<Rightarrow> string \<Rightarrow> bool" where
  "hit st dateFrom dateTo pr rs k =
     (\<exists>rv \<in> set rs. qualifies dateFrom dateTo pr rv \<and> state rv = st \<and> reviewer_key pr rv = k)"

text \<open>Some qualifying review among \<open>rs\<close>, of any state, has the key \<open>k\<close>.\<close>

definition touched :: "date \<Rightarrow> date \<Rightarrow> pull_request \<Rightarrow> review list \<Rightarrow> string \<Rightarrow> bool" where
  "touched dateFrom dateTo pr rs k =
     (\<exists>rv \<in> set rs. qualifies dateFrom dateTo pr rv \<and> reviewer_key pr rv = k)"

text \<open>The pull request without the reviews written by its own author.\<close>

definition drop_self_reviews :: "pull_request \<Rightarrow> pull_request" where
  "drop_self_reviews pr = pr\<lparr>reviews := filter (\<lambda>rv. reviewer rv \<noteq> author pr) (reviews pr)\<rparr>"

text \<open>\<open>q\<close> is \<open>p\<close> with its reviews in another order.\<close>

definition reviews_reordered :: "pull_request \<Rightarrow> pull_request \<Rightarrow> bool" where
  "reviews_reordered p q = (q = p\<lparr>reviews := reviews q\<rparr> \<and> mset (reviews q) = mset (reviews p))"

text \<open>Names without the separator of the keys.\<close>

definition slash_free :: "string \<Rightarrow> bool" where
  "slash_free s = (CHR ''/'' \<notin> set s)"

definition names_slash_free :: "pull_request list \<Rightarrow> bool" where
  "names_slash_free prs =
     list_all (\<lambda>pr. slash_free (owner pr) \<and> slash_free (repo pr) \<and> slash_free (author pr)
                 \<and> list_all (\<lambda>rv. slash_free (reviewer rv)) (reviews pr)) prs"

definition row_triple :: "stat_row \<Rightarrow> string \<times> string \<times> string" where
  "row_triple row = (row_owner row, row_repo row, row_author row)"

text \<open>The totals stored under an author, empty when the author has no entry.\<close>

definition totals_of :: "totals object \<Rightarrow> string \<Rightarrow> totals" where
  "totals_of obj k = (case map_of obj k of None \<Rightarrow> empty_totals | Some t \<Rightarrow> t)"

text \<open>
  The summary in the words of the specification: over the detailed rows of one author,
  the three sums and the numbers of distinct (owner, repo) pairs with \<open>created > 0\<close> and
  with \<open>commented > 0\<close> or \<open>approved > 0\<close>.
\<close>

definition rows_of :: "string \<Rightarrow> stat_row list \<Rightarrow> stat_row list" where
  "rows_of a stats = filter (\<lambda>item. row_author item = a) stats"

definition repo_pair :: "stat_row \<Rightarrow> string \<times> string" where
  "repo_pair item = (row_owner item, row_repo item)"

definition has_created :: "stat_row \<Rightarrow> bool" where
  "has_created item = (row_created item > 0)"

definition has_reviewed :: "stat_row \<Rightarrow> bool" where
  "has_reviewed item = (row_commented item > 0 \<or> row_approved item > 0)"

definition summary_of :: "string \<Rightarrow> stat_row list \<Rightarrow> summary_row" where
  "summary_of a stats =
     \<lparr>sum_author = a,
      sum_pull_requests = Finite (sum_list (map row_created (rows_of a stats))),
      sum_repos = card (repo_pair ` set (filter has_created (rows_of a stats))),
      sum_commented = Finite (sum_list (map row_commented (rows_of a stats))),
      sum_approved = Finite (sum_list (map row_approved (rows_of a stats))),
      sum_repos_reviewed = card (repo_pair ` set (filter has_reviewed (rows_of a stats)))\<rparr>"

text \<open>
  Rows whose owner has no \<open>/\<close> and whose author is not the name of a property that
  every plain object inherits.
\<close>

definition plain_rows :: "stat_row list \<Rightarrow> bool" where
  "plain_rows stats =
     list_all (\<lambda>item. slash_free (row_owner item) \<and> \<not> inherited (row_author item)) stats"

text \<open>Rows whose counters add up exactly as doubles: every total is below \<open>2^53\<close>.\<close>

definition small_sums :: "stat_row list \<Rightarrow> bool" where
  "small_sums stats =
     (sum_list (map row_created stats) < 2 ^ 53 \<and> sum_list (map row_commented stats) < 2 ^ 53
      \<and> sum_list (map row_approved stats) < 2 ^ 53)"

text \<open>
  The counted activity under a key: the pull requests created inside the window under
  it, and the pull requests with a qualifying \<open>COMMENTED\<close> review and with a qualifying
  \<open>APPROVED\<close> review under it.
\<close>

definition activity :: "date \<Rightarrow> date \<Rightarrow> pull_request list \<Rightarrow> string \<Rightarrow> counters" where
  "activity dateFrom dateTo prs k =
     \<lparr>created = length (filter (\<lambda>p. in_window (created_at p) dateFrom dateTo \<and> author_key p = k) prs),
      commented = length (filter (\<lambda>p. hit ''COMMENTED'' dateFrom dateTo p (reviews p) k) prs),
      approved = length (filter (\<lambda>p. hit ''APPROVED'' dateFrom dateTo p (reviews p) k) prs)\<rparr>"

definition example_row :: "string \<Rightarrow> string \<Rightarrow> string \<Rightarrow> nat \<Rightarrow> nat \<Rightarrow> nat \<Rightarrow> stat_row" where
  "example_row ow rp who n m l =
     \<lparr>row_owner = ow, row_repo = rp, row_author = who, row_created = n, row_commented = m,
      row_approved = l\<rparr>"

section \<open>Basic facts\<close>

lemma truthy_bitand_bool: "truthy (bitand_bool a b) = (a \<and> b)"
  by (cases a; cases b; simp add: truthy_def bitand_bool_def)

lemma truthy_validInterval: "truthy (validInterval x dateFrom dateTo) = in_window x dateFrom dateTo"
  by (simp add: validInterval_def truthy_bitand_bool date_greater_def in_window_def conj_commute)

lemma excess_bits_small: "n < 2 ^ 53 \<Longrightarrow> excess_bits n = 0"
  by (subst excess_bits.simps) simp

lemma round_double_exact: "n < 2 ^ 53 \<Longrightarrow> round_double n = Finite n"
proof -
  assume a: "n < 2 ^ 53"
  have "(2::nat) ^ 53 \<le> 2 ^ 1024" by (rule power_increasing) simp_all
  with a have "n < 2 ^ 1024" by (rule order.strict_trans2)
  with a show ?thesis by (simp add: round_double_def excess_bits_small)
qed

lemma add_number_exact: "a + n < 2 ^ 53 \<Longrightarrow> add_number (Finite a) n = Finite (a + n)"
  by (simp add: add_number_def round_double_exact)

lemma fold_add_number:
  "a + sum_list ns < 2 ^ 53 \<Longrightarrow> foldl add_number (Finite a) ns = Finite (a + sum_list ns)"
proof (induction ns arbitrary: a)
  case Nil
  show ?case by simp
next
  case (Cons n ns)
  from Cons.prems have b: "a + n < 2 ^ 53" and r: "(a + n) + sum_list ns < 2 ^ 53"
    by simp_all
  show ?case
    using Cons.IH [OF r] by (simp add: add_number_exact [OF b] add.assoc)
qed

text \<open>Above \<open>2^53\<close> the sum is rounded: to the even neighbour when it lies half way.\<close>

lemma add_number_rounds:
  "add_number (Finite (2 ^ 53)) 1 = Finite (2 ^ 53)
   \<and> add_number (Finite (2 ^ 53)) 2 = Finite (2 ^ 53 + 2)
   \<and> add_number (Finite (2 ^ 53 + 2)) 1 = Finite (2 ^ 53 + 4)"
  by (simp add: add_number_def round_double_def excess_bits.simps)

lemma slash_in_key3: "CHR ''/'' \<in> set (key3 a b c)"
  by (simp add: key3_def)

lemma inherited_no_slash: "inherited k \<Longrightarrow> CHR ''/'' \<notin> set k"
  by (auto simp: inherited_def Object_prototype_def)

lemma not_inherited_key3: "\<not> inherited (key3 a b c)"
  using inherited_no_slash slash_in_key3 by blast

lemma is_index_no_slash: "is_index k \<Longrightarrow> CHR ''/'' \<notin> set k"
proof -
  assume a: "is_index k"
  have "\<not> is_digit (CHR ''/'')" by (simp add: is_digit_def)
  moreover from a have "list_all is_digit k"
    by (cases k rule: canonical.cases) (simp_all add: is_index_def)
  ultimately show ?thesis by (auto simp: list_all_iff)
qed

lemma own_entries_no_index:
  "\<forall>e \<in> set obj. \<not> is_index (fst e) \<Longrightarrow> own_entries obj = obj"
  by (simp add: own_entries_def filter_empty_conv[THEN iffD2] filter_id_conv[THEN iffD2])

subsection \<open>Objects\<close>

lemma map_fst_update_at: "map fst (update_at k f obj) = map fst obj"
  by (induction obj) (auto simp: update_at_def)

lemma own_update_at: "own (update_at k f obj) k' = own obj k'"
  by (simp add: own_def map_fst_update_at)

lemma map_of_update_at:
  "map_of (update_at k f obj) k' = (if k' = k then map_option f (map_of obj k) else map_of obj k')"
  by (induction obj) (auto simp: update_at_def)

lemma own_map_of: "own obj k = (map_of obj k \<noteq> None)"
  by (simp add: own_def map_of_eq_None_iff)

lemma counts_of_update_at:
  "counts_of (update_at k f obj) k' =
     (if k' = k \<and> own obj k then f (counts_of obj k) else counts_of obj k')"
  by (auto simp: counts_of_def map_of_update_at own_map_of split: option.splits)

lemma own_ensure: "\<not> inherited k \<Longrightarrow> own (ensure k v obj) k' = (own obj k' \<or> k' = k)"
  by (auto simp: ensure_def absent_def own_def)

lemma counts_of_ensure: "counts_of (ensure k zero obj) k' = counts_of obj k'"
  by (auto simp: ensure_def absent_def own_map_of counts_of_def map_add_def split: option.splits)

lemma distinct_ensure: "distinct (map fst obj) \<Longrightarrow> distinct (map fst (ensure k v obj))"
  by (auto simp: ensure_def absent_def own_def)

lemma distinct_update_at: "distinct (map fst (update_at k f obj)) = distinct (map fst obj)"
  by (simp add: map_fst_update_at)

subsection \<open>One review\<close>

lemma review_step_skip:
  "\<not> qualifies dateFrom dateTo pr rv \<Longrightarrow> review_step dateFrom dateTo pr s rv = s"
  by (auto simp: review_step_def qualifies_def truthy_validInterval)

lemma own_review_step:
  "own (acc (review_step dateFrom dateTo pr s rv)) k =
     (own (acc s) k \<or> (qualifies dateFrom dateTo pr rv \<and> reviewer_key pr rv = k))"
  by (auto simp: review_step_def qualifies_def truthy_validInterval reviewer_key_def Let_def
      own_update_at own_ensure not_inherited_key3)

lemma distinct_review_step:
  "distinct (map fst (acc s)) \<Longrightarrow> distinct (map fst (acc (review_step dateFrom dateTo pr s rv)))"
  by (simp add: review_step_def Let_def distinct_update_at distinct_ensure)

lemma created_review_step:
  "created (counts_of (acc (review_step dateFrom dateTo pr s rv)) k) = created (counts_of (acc s) k)"
  by (simp add: review_step_def Let_def counts_of_update_at counts_of_ensure)

lemma commented_review_step:
  "commented (counts_of (acc (review_step dateFrom dateTo pr s rv)) k) =
     commented (counts_of (acc s) k) +
       (if qualifies dateFrom dateTo pr rv \<and> state rv = ''COMMENTED'' \<and> reviewer_key pr rv = k
           \<and> k \<notin> set (reviewsCommented s) then 1 else 0)"
  by (auto simp: review_step_def Let_def counts_of_update_at counts_of_ensure qualifies_def
      truthy_validInterval reviewer_key_def marked_def not_inherited_key3 own_ensure)

lemma approved_review_step:
  "approved (counts_of (acc (review_step dateFrom dateTo pr s rv)) k) =
     approved (counts_of (acc s) k) +
       (if qualifies dateFrom dateTo pr rv \<and> state rv = ''APPROVED'' \<and> reviewer_key pr rv = k
           \<and> k \<notin> set (reviewsApproved s) then 1 else 0)"
  by (auto simp: review_step_def Let_def counts_of_update_at counts_of_ensure qualifies_def
      truthy_validInterval reviewer_key_def marked_def not_inherited_key3 own_ensure)

lemma reviewsCommented_review_step:
  "set (reviewsCommented (review_step dateFrom dateTo pr s rv)) =
     set (reviewsCommented s) \<union>
       (if qualifies dateFrom dateTo pr rv \<and> state rv = ''COMMENTED'' then {reviewer_key pr rv} else {})"
  by (auto simp: review_step_def Let_def qualifies_def truthy_validInterval reviewer_key_def
      marked_def not_inherited_key3)

lemma reviewsApproved_review_step:
  "set (reviewsApproved (review_step dateFrom dateTo pr s rv)) =
     set (reviewsApproved s) \<union>
       (if qualifies dateFrom dateTo pr rv \<and> state rv = ''APPROVED'' then {reviewer_key pr rv} else {})"
  by (auto simp: review_step_def Let_def qualifies_def truthy_validInterval reviewer_key_def
      marked_def not_inherited_key3)

subsection \<open>One pull request\<close>

lemma hit_Nil: "hit st dateFrom dateTo pr [] k = False"
  by (simp add: hit_def)

lemma hit_Cons:
  "hit st dateFrom dateTo pr (rv # rs) k =
     ((qualifies dateFrom dateTo pr rv \<and> state rv = st \<and> reviewer_key pr rv = k)
        \<or> hit st dateFrom dateTo pr rs k)"
  by (simp add: hit_def)

lemma touched_Nil: "touched dateFrom dateTo pr [] k = False"
  by (simp add: touched_def)

lemma touched_Cons:
  "touched dateFrom dateTo pr (rv # rs) k =
     ((qualifies dateFrom dateTo pr rv \<and> reviewer_key pr rv = k) \<or> touched dateFrom dateTo pr rs k)"
  by (simp add: touched_def)

lemma own_review_pass:
  "own (acc (foldl (review_step dateFrom dateTo pr) s rs)) k =
     (own (acc s) k \<or> touched dateFrom dateTo pr rs k)"
  by (induction rs arbitrary: s) (auto simp: touched_Nil touched_Cons own_review_step)

lemma distinct_review_pass:
  "distinct (map fst (acc s)) \<Longrightarrow>
   distinct (map fst (acc (foldl (review_step dateFrom dateTo pr) s rs)))"
  by (induction rs arbitrary: s) (simp_all add: distinct_review_step)

lemma created_review_pass:
  "created (counts_of (acc (foldl (review_step dateFrom dateTo pr) s rs)) k) =
     created (counts_of (acc s) k)"
  by (induction rs arbitrary: s) (simp_all add: created_review_step)

lemma commented_review_pass:
  "commented (counts_of (acc (foldl (review_step dateFrom dateTo pr) s rs)) k) =
     commented (counts_of (acc s) k) +
       (if hit ''COMMENTED'' dateFrom dateTo pr rs k \<and> k \<notin> set (reviewsCommented s) then 1 else 0)"
proof (induction rs arbitrary: s)
  case Nil
  show ?case by (simp add: hit_Nil)
next
  case (Cons rv rs)
  show ?case
    by (simp add: Cons.IH commented_review_step reviewsCommented_review_step hit_Cons)
qed

lemma approved_review_pass:
  "approved (counts_of (acc (foldl (review_step dateFrom dateTo pr) s rs)) k) =
     approved (counts_of (acc s) k) +
       (if hit ''APPROVED'' dateFrom dateTo pr rs k \<and> k \<notin> set (reviewsApproved s) then 1 else 0)"
proof (induction rs arbitrary: s)
  case Nil
  show ?case by (simp add: hit_Nil)
next
  case (Cons rv rs)
  show ?case
    by (simp add: Cons.IH approved_review_step reviewsApproved_review_step hit_Cons)
qed

lemma own_pr_step:
  "own (pr_step dateFrom dateTo a pr) k =
     (own a k \<or> (in_window (created_at pr) dateFrom dateTo \<and> author_key pr = k)
        \<or> touched dateFrom dateTo pr (reviews pr) k)"
  by (auto simp: pr_step_def Let_def own_review_pass truthy_validInterval own_update_at own_ensure
      not_inherited_key3 author_key_def)

lemma distinct_pr_step:
  "distinct (map fst a) \<Longrightarrow> distinct (map fst (pr_step dateFrom dateTo a pr))"
  by (simp add: pr_step_def Let_def distinct_review_pass distinct_update_at distinct_ensure)

lemma created_pr_step:
  "created (counts_of (pr_step dateFrom dateTo a pr) k) =
     created (counts_of a k) +
       (if in_window (created_at pr) dateFrom dateTo \<and> author_key pr = k then 1 else 0)"
  by (auto simp: pr_step_def Let_def created_review_pass truthy_validInterval counts_of_update_at
      counts_of_ensure own_ensure not_inherited_key3 author_key_def)

lemma commented_pr_step:
  "commented (counts_of (pr_step dateFrom dateTo a pr) k) =
     commented (counts_of a k) +
       (if hit ''COMMENTED'' dateFrom dateTo pr (reviews pr) k then 1 else 0)"
  by (simp add: pr_step_def Let_def commented_review_pass counts_of_update_at counts_of_ensure)

lemma approved_pr_step:
  "approved (counts_of (pr_step dateFrom dateTo a pr) k) =
     approved (counts_of a k) +
       (if hit ''APPROVED'' dateFrom dateTo pr (reviews pr) k then 1 else 0)"
  by (simp add: pr_step_def Let_def approved_review_pass counts_of_update_at counts_of_ensure)

subsection \<open>The whole list of pull requests\<close>

lemma own_reduce:
  "own (foldl (pr_step dateFrom dateTo) a prs) k =
     (own a k \<or> (\<exists>pr \<in> set prs. (in_window (created_at pr) dateFrom dateTo \<and> author_key pr = k)
        \<or> touched dateFrom dateTo pr (reviews pr) k))"
  by (induction prs arbitrary: a) (auto simp: own_pr_step)

lemma distinct_reduce:
  "distinct (map fst a) \<Longrightarrow> distinct (map fst (foldl (pr_step dateFrom dateTo) a prs))"
  by (induction prs arbitrary: a) (simp_all add: distinct_pr_step)

lemma created_reduce:
  "created (counts_of (foldl (pr_step dateFrom dateTo) a prs) k) =
     created (counts_of a k) +
       length (filter (\<lambda>pr. in_window (created_at pr) dateFrom dateTo \<and> author_key pr = k) prs)"
  by (induction prs arbitrary: a) (simp_all add: created_pr_step)

lemma commented_reduce:
  "commented (counts_of (foldl (pr_step dateFrom dateTo) a prs) k) =
     commented (counts_of a k) +
       length (filter (\<lambda>pr. hit ''COMMENTED'' dateFrom dateTo pr (reviews pr) k) prs)"
  by (induction prs arbitrary: a) (simp_all add: commented_pr_step)

lemma approved_reduce:
  "approved (counts_of (foldl (pr_step dateFrom dateTo) a prs) k) =
     approved (counts_of a k) +
       length (filter (\<lambda>pr. hit ''APPROVED'' dateFrom dateTo pr (reviews pr) k) prs)"
  by (induction prs arbitrary: a) (simp_all add: approved_pr_step)

lemma counts_of_Nil: "counts_of [] k = zero"
  by (simp add: counts_of_def)

lemma distinct_grouped: "distinct (map fst (grouped prs dateFrom dateTo))"
  by (simp add: grouped_def distinct_reduce)

lemma own_grouped:
  "own (grouped prs dateFrom dateTo) k =
     (\<exists>pr \<in> set prs. (in_window (created_at pr) dateFrom dateTo \<and> author_key pr = k)
        \<or> touched dateFrom dateTo pr (reviews pr) k)"
proof -
  have "\<not> own ([] :: counters object) k" by (simp add: own_def)
  then show ?thesis by (simp add: grouped_def own_reduce)
qed

lemma created_grouped:
  "created (counts_of (grouped prs dateFrom dateTo) k) =
     length (filter (\<lambda>pr. in_window (created_at pr) dateFrom dateTo \<and> author_key pr = k) prs)"
  by (simp add: grouped_def created_reduce counts_of_Nil zero_def)

lemma commented_grouped:
  "commented (counts_of (grouped prs dateFrom dateTo) k) =
     length (filter (\<lambda>pr. hit ''COMMENTED'' dateFrom dateTo pr (reviews pr) k) prs)"
  by (simp add: grouped_def commented_reduce counts_of_Nil zero_def)

lemma approved_grouped:
  "approved (counts_of (grouped prs dateFrom dateTo) k) =
     length (filter (\<lambda>pr. hit ''APPROVED'' dateFrom dateTo pr (reviews pr) k) prs)"
  by (simp add: grouped_def approved_reduce counts_of_Nil zero_def)

lemma slash_in_grouped_key: "e \<in> set (grouped prs dateFrom dateTo) \<Longrightarrow> CHR ''/'' \<in> set (fst e)"
proof -
  assume "e \<in> set (grouped prs dateFrom dateTo)"
  then have "own (grouped prs dateFrom dateTo) (fst e)" by (auto simp: own_def)
  then obtain a b c where "key3 a b c = fst e"
    by (auto simp: own_grouped author_key_def touched_def reviewer_key_def)
  then show ?thesis
    using slash_in_key3[of a b c] by simp
qed

lemma own_entries_grouped: "own_entries (grouped prs dateFrom dateTo) = grouped prs dateFrom dateTo"
  using slash_in_grouped_key is_index_no_slash by (intro own_entries_no_index) blast

lemma getDetailedStats_rows:
  "getDetailedStats prs dateFrom dateTo = map to_row (grouped prs dateFrom dateTo)"
  by (simp add: getDetailedStats_def own_entries_grouped)

subsection \<open>Skipped reviews\<close>

lemma counts_of_skip_commented:
  "state rv = ''COMMENTED'' \<Longrightarrow> reviewer_key pr rv \<in> set (reviewsCommented s) \<Longrightarrow>
   counts_of (acc (review_step dateFrom dateTo pr s rv)) k = counts_of (acc s) k
   \<and> reviewsCommented (review_step dateFrom dateTo pr s rv) = reviewsCommented s
   \<and> reviewsApproved (review_step dateFrom dateTo pr s rv) = reviewsApproved s"
  by (simp add: review_step_def Let_def marked_def reviewer_key_def counts_of_ensure)

lemma counts_of_skip_approved:
  "state rv = ''APPROVED'' \<Longrightarrow> reviewer_key pr rv \<in> set (reviewsApproved s) \<Longrightarrow>
   counts_of (acc (review_step dateFrom dateTo pr s rv)) k = counts_of (acc s) k
   \<and> reviewsCommented (review_step dateFrom dateTo pr s rv) = reviewsCommented s
   \<and> reviewsApproved (review_step dateFrom dateTo pr s rv) = reviewsApproved s"
  by (simp add: review_step_def Let_def marked_def reviewer_key_def counts_of_ensure)

lemma review_step_reviews_update:
  "review_step dateFrom dateTo (pr\<lparr>reviews := rs\<rparr>) = review_step dateFrom dateTo pr"
  by (intro ext) (simp add: review_step_def)

lemma review_step_self:
  "reviewer rv = author pr \<Longrightarrow> review_step dateFrom dateTo pr s rv = s"
  by (simp add: review_step_skip qualifies_def)

lemma review_pass_drop_self:
  "foldl (review_step dateFrom dateTo pr) s (filter (\<lambda>rv. reviewer rv \<noteq> author pr) rs) =
   foldl (review_step dateFrom dateTo pr) s rs"
  by (induction rs arbitrary: s) (simp_all add: review_step_self)

lemma pr_step_drop_self: "pr_step dateFrom dateTo a (drop_self_reviews pr) = pr_step dateFrom dateTo a pr"
  by (simp add: pr_step_def drop_self_reviews_def review_step_reviews_update review_pass_drop_self)

lemma reduce_drop_self:
  "foldl (pr_step dateFrom dateTo) a (map drop_self_reviews prs) = foldl (pr_step dateFrom dateTo) a prs"
  by (induction prs arbitrary: a) (simp_all add: pr_step_drop_self)

subsection \<open>Reordered reviews\<close>

lemma entry_iff:
  "distinct (map fst g) \<Longrightarrow> ((k, c) \<in> set g) = (own g k \<and> counts_of g k = c)"
proof -
  assume d: "distinct (map fst g)"
  have "((k, c) \<in> set g) = (map_of g k = Some c)"
    using d by simp
  then show ?thesis
    by (auto simp: own_map_of counts_of_def split: option.splits)
qed

lemma same_entries:
  assumes "distinct (map fst g)" and "distinct (map fst h)"
    and "\<And>k. own h k = own g k" and "\<And>k. counts_of h k = counts_of g k"
  shows "mset h = mset g"
proof -
  have "set h = set g"
    using assms by (auto simp: entry_iff)
  moreover have "distinct h" "distinct g"
    using assms(1,2) by (simp_all add: distinct_map)
  ultimately show ?thesis
    by (simp add: set_eq_iff_mset_eq_distinct)
qed

lemma reordered_fields:
  assumes "reviews_reordered p q"
  shows "owner q = owner p" "repo q = repo p" "author q = author p" "created_at q = created_at p"
    "set (reviews q) = set (reviews p)"
proof -
  from assms have eq: "q = p\<lparr>reviews := reviews q\<rparr>" and m: "mset (reviews q) = mset (reviews p)"
    by (simp_all add: reviews_reordered_def)
  show "owner q = owner p" by (subst eq) simp
  show "repo q = repo p" by (subst eq) simp
  show "author q = author p" by (subst eq) simp
  show "created_at q = created_at p" by (subst eq) simp
  show "set (reviews q) = set (reviews p)" using m by (rule mset_eq_setD)
qed

lemma reordered_hit:
  "reviews_reordered p q \<Longrightarrow>
   hit st dateFrom dateTo q (reviews q) k = hit st dateFrom dateTo p (reviews p) k"
  by (simp add: hit_def qualifies_def reviewer_key_def reordered_fields)

lemma reordered_touched:
  "reviews_reordered p q \<Longrightarrow>
   touched dateFrom dateTo q (reviews q) k = touched dateFrom dateTo p (reviews p) k"
  by (simp add: touched_def qualifies_def reviewer_key_def reordered_fields)

lemma reordered_author_key: "reviews_reordered p q \<Longrightarrow> author_key q = author_key p"
  by (simp add: author_key_def reordered_fields)

lemma related_filter_length:
  "list_all2 R xs ys \<Longrightarrow> (\<And>x y. R x y \<Longrightarrow> Q y = P x) \<Longrightarrow>
   length (filter Q ys) = length (filter P xs)"
  by (induction rule: list_all2_induct) simp_all

lemma related_ex:
  "list_all2 R xs ys \<Longrightarrow> (\<And>x y. R x y \<Longrightarrow> Q y = P x) \<Longrightarrow>
   (\<exists>y \<in> set ys. Q y) = (\<exists>x \<in> set xs. P x)"
  by (induction rule: list_all2_induct) simp_all

lemma reordered_own:
  assumes "list_all2 reviews_reordered prs prs'"
  shows "own (grouped prs' dateFrom dateTo) k = own (grouped prs dateFrom dateTo) k"
  unfolding own_grouped
  by (rule related_ex [OF assms])
     (simp add: reordered_touched reordered_author_key reordered_fields)

lemma reordered_counts:
  assumes "list_all2 reviews_reordered prs prs'"
  shows "counts_of (grouped prs' dateFrom dateTo) k = counts_of (grouped prs dateFrom dateTo) k"
proof (rule counters.equality)
  show "created (counts_of (grouped prs' dateFrom dateTo) k) =
        created (counts_of (grouped prs dateFrom dateTo) k)"
    unfolding created_grouped
    by (rule related_filter_length [OF assms]) (simp add: reordered_author_key reordered_fields)
  show "commented (counts_of (grouped prs' dateFrom dateTo) k) =
        commented (counts_of (grouped prs dateFrom dateTo) k)"
    unfolding commented_grouped
    by (rule related_filter_length [OF assms]) (simp add: reordered_hit)
  show "approved (counts_of (grouped prs' dateFrom dateTo) k) =
        approved (counts_of (grouped prs dateFrom dateTo) k)"
    unfolding approved_grouped
    by (rule related_filter_length [OF assms]) (simp add: reordered_hit)
qed simp

subsection \<open>Rows\<close>

lemma filter_pos: "x \<in> set xs \<Longrightarrow> P x \<Longrightarrow> 0 < length (filter P xs)"
  by (induction xs) auto

lemma row_counters:
  "row_created (to_row e) = created (snd e) \<and> row_commented (to_row e) = commented (snd e)
   \<and> row_approved (to_row e) = approved (snd e)"
  by (simp add: to_row_def Let_def)

lemma split_no_sep: "c \<notin> set s \<Longrightarrow> split c s = [s]"
  by (induction s) auto

lemma split_append_sep: "c \<notin> set s \<Longrightarrow> split c (s @ c # t) = s # split c t"
  by (induction s) auto

lemma split_key3:
  "CHR ''/'' \<notin> set a \<Longrightarrow> CHR ''/'' \<notin> set b \<Longrightarrow> CHR ''/'' \<notin> set c \<Longrightarrow>
   split (CHR ''/'') (key3 a b c) = [a, b, c]"
  by (simp add: key3_def split_append_sep split_no_sep)

lemma split_nonempty: "split c s \<noteq> []"
  by (induction s) (auto split: list.splits)

lemma length_split_append: "length (split c (s @ c # t)) = length (split c s) + length (split c t)"
  by (induction s) (auto split: list.splits simp: split_nonempty)

lemma length_split_key: "3 \<le> length (split (CHR ''/'') (key3 a b c))"
proof -
  have eq: "length (split (CHR ''/'') (key3 a b c)) =
    length (split (CHR ''/'') a) + (length (split (CHR ''/'') b) + length (split (CHR ''/'') c))"
    by (simp add: key3_def length_split_append)
  have pos: "1 \<le> length (split (CHR ''/'') x)" for x
    using split_nonempty [of "CHR ''/''" x] by (cases "split (CHR ''/'') x") simp_all
  show ?thesis
    using pos [of a] pos [of b] pos [of c] unfolding eq by linarith
qed

text \<open>The definitions a concrete run of \<open>getDetailedStats\<close> unfolds.\<close>

lemmas run_detailed =
  getDetailedStats_rows grouped_def pr_step_def review_step_def Let_def truthy_validInterval
  in_window_def ensure_def absent_def own_def inherited_def Object_prototype_def update_at_def
  marked_def key3_def zero_def to_row_def element_def example_pr_def example_review_def

subsection \<open>Keys without a separator inside the names\<close>

lemma key3_inject:
  assumes "slash_free a" "slash_free b" "slash_free c" "slash_free a'" "slash_free b'" "slash_free c'"
  shows "(key3 a b c = key3 a' b' c') = (a = a' \<and> b = b' \<and> c = c')"
proof
  assume "key3 a b c = key3 a' b' c'"
  then have "split (CHR ''/'') (key3 a b c) = split (CHR ''/'') (key3 a' b' c')" by simp
  with assms show "a = a' \<and> b = b' \<and> c = c'"
    by (simp add: split_key3 slash_free_def)
qed simp

lemma row_triple_to_row:
  "slash_free a \<Longrightarrow> slash_free b \<Longrightarrow> slash_free c \<Longrightarrow>
   row_triple (to_row (key3 a b c, cs)) = (a, b, c)"
  by (simp add: row_triple_def to_row_def split_key3 slash_free_def element_def)

lemma names_slash_freeD:
  assumes "names_slash_free prs" "pr \<in> set prs"
  shows "slash_free (owner pr)" "slash_free (repo pr)" "slash_free (author pr)"
    "rv \<in> set (reviews pr) \<Longrightarrow> slash_free (reviewer rv)"
  using assms by (auto simp: names_slash_free_def list_all_iff)

lemma grouped_origin:
  assumes "e \<in> set (grouped prs dateFrom dateTo)"
  shows "\<exists>pr \<in> set prs.
      (in_window (created_at pr) dateFrom dateTo \<and> fst e = key3 (owner pr) (repo pr) (author pr))
      \<or> (\<exists>rv \<in> set (reviews pr). qualifies dateFrom dateTo pr rv
            \<and> fst e = key3 (owner pr) (repo pr) (reviewer rv))"
proof -
  from assms have "own (grouped prs dateFrom dateTo) (fst e)" by (auto simp: own_def)
  then show ?thesis
    unfolding own_grouped author_key_def touched_def reviewer_key_def by (metis (no_types, lifting))
qed

lemma grouped_key_form:
  assumes "names_slash_free prs" "e \<in> set (grouped prs dateFrom dateTo)"
  shows "\<exists>a b c. slash_free a \<and> slash_free b \<and> slash_free c \<and> fst e = key3 a b c"
  using grouped_origin [OF assms(2)] names_slash_freeD [OF assms(1)] by blast

lemma key_of_row:
  assumes "names_slash_free prs" "e \<in> set (grouped prs dateFrom dateTo)"
  shows "(\<lambda>(a, b, c). key3 a b c) (row_triple (to_row e)) = fst e"
proof -
  from grouped_key_form [OF assms] obtain a b c where
    sf: "slash_free a" "slash_free b" "slash_free c" and k: "fst e = key3 a b c" by blast
  have "to_row e = to_row (key3 a b c, snd e)" using k by (simp add: to_row_def)
  then show ?thesis using sf k by (simp add: row_triple_to_row)
qed

lemma distinct_row_triples:
  assumes "names_slash_free prs"
  shows "distinct (map row_triple (getDetailedStats prs dateFrom dateTo))"
proof -
  let ?g = "grouped prs dateFrom dateTo"
  have "map (\<lambda>(a, b, c). key3 a b c) (map row_triple (map to_row ?g)) = map fst ?g"
    unfolding map_map by (rule map_cong [OF refl]) (simp add: key_of_row [OF assms])
  then have "distinct (map (\<lambda>(a, b, c). key3 a b c) (map row_triple (map to_row ?g)))"
    by (simp only: distinct_grouped)
  then show ?thesis
    unfolding getDetailedStats_rows by (rule distinct_map [THEN iffD1, THEN conjunct1])
qed

lemma row_counts:
  assumes sf: "names_slash_free prs" and row: "row \<in> set (getDetailedStats prs dateFrom dateTo)"
  shows "row_created row =
      length (filter (\<lambda>pr. in_window (created_at pr) dateFrom dateTo
                \<and> (owner pr, repo pr, author pr) = row_triple row) prs)"
    and "row_commented row =
      length (filter (\<lambda>pr. \<exists>rv \<in> set (reviews pr). qualifies dateFrom dateTo pr rv
                \<and> state rv = ''COMMENTED'' \<and> (owner pr, repo pr, reviewer rv) = row_triple row) prs)"
    and "row_approved row =
      length (filter (\<lambda>pr. \<exists>rv \<in> set (reviews pr). qualifies dateFrom dateTo pr rv
                \<and> state rv = ''APPROVED'' \<and> (owner pr, repo pr, reviewer rv) = row_triple row) prs)"
proof -
  let ?g = "grouped prs dateFrom dateTo"
  from row obtain e where e: "e \<in> set ?g" and r: "row = to_row e"
    by (auto simp: getDetailedStats_rows)
  from grouped_key_form [OF sf e] obtain a b c where
    abc: "slash_free a" "slash_free b" "slash_free c" and k: "fst e = key3 a b c" by blast
  have "to_row e = to_row (key3 a b c, snd e)" using k by (simp add: to_row_def)
  then have t: "row_triple row = (a, b, c)" using abc r by (simp add: row_triple_to_row)
  from e k have "(key3 a b c, snd e) \<in> set ?g"
    by (metis prod.collapse)
  then have cnt: "counts_of ?g (key3 a b c) = snd e"
    by (simp add: entry_iff [OF distinct_grouped])
  have akey: "(author_key pr = key3 a b c) = ((owner pr, repo pr, author pr) = (a, b, c))"
    if "pr \<in> set prs" for pr
    using names_slash_freeD [OF sf that] abc by (simp add: author_key_def key3_inject)
  have rkey: "(reviewer_key pr rv = key3 a b c) = ((owner pr, repo pr, reviewer rv) = (a, b, c))"
    if "pr \<in> set prs" "rv \<in> set (reviews pr)" for pr rv
    using names_slash_freeD [OF sf that(1)] that(2) abc by (simp add: reviewer_key_def key3_inject)
  have "row_created row = created (counts_of ?g (key3 a b c))"
    by (simp add: r row_counters cnt)
  also have "\<dots> = length (filter (\<lambda>pr. in_window (created_at pr) dateFrom dateTo
                \<and> (owner pr, repo pr, author pr) = row_triple row) prs)"
    unfolding created_grouped t
    by (rule arg_cong [where f = length], rule filter_cong [OF refl]) (simp add: akey)
  finally show "row_created row =
      length (filter (\<lambda>pr. in_window (created_at pr) dateFrom dateTo
                \<and> (owner pr, repo pr, author pr) = row_triple row) prs)" .
  have hit_eq: "hit st dateFrom dateTo pr (reviews pr) (key3 a b c) =
      (\<exists>rv \<in> set (reviews pr). qualifies dateFrom dateTo pr rv
                \<and> state rv = st \<and> (owner pr, repo pr, reviewer rv) = row_triple row)"
    if "pr \<in> set prs" for pr st
    unfolding hit_def t using rkey [OF that] by blast
  have "row_commented row = commented (counts_of ?g (key3 a b c))"
    by (simp add: r row_counters cnt)
  also have "\<dots> = length (filter (\<lambda>pr. \<exists>rv \<in> set (reviews pr). qualifies dateFrom dateTo pr rv
                \<and> state rv = ''COMMENTED'' \<and> (owner pr, repo pr, reviewer rv) = row_triple row) prs)"
    unfolding commented_grouped
    by (rule arg_cong [where f = length], rule filter_cong [OF refl]) (simp add: hit_eq)
  finally show "row_commented row =
      length (filter (\<lambda>pr. \<exists>rv \<in> set (reviews pr). qualifies dateFrom dateTo pr rv
                \<and> state rv = ''COMMENTED'' \<and> (owner pr, repo pr, reviewer rv) = row_triple row) prs)" .
  have "row_approved row = approved (counts_of ?g (key3 a b c))"
    by (simp add: r row_counters cnt)
  also have "\<dots> = length (filter (\<lambda>pr. \<exists>rv \<in> set (reviews pr). qualifies dateFrom dateTo pr rv
                \<and> state rv = ''APPROVED'' \<and> (owner pr, repo pr, reviewer rv) = row_triple row) prs)"
    unfolding approved_grouped
    by (rule arg_cong [where f = length], rule filter_cong [OF refl]) (simp add: hit_eq)
  finally show "row_approved row =
      length (filter (\<lambda>pr. \<exists>rv \<in> set (reviews pr). qualifies dateFrom dateTo pr rv
                \<and> state rv = ''APPROVED'' \<and> (owner pr, repo pr, reviewer rv) = row_triple row) prs)" .
qed

lemma row_origin:
  assumes sf: "names_slash_free prs" and row: "row \<in> set (getDetailedStats prs dateFrom dateTo)"
  shows "\<exists>pr \<in> set prs.
      (in_window (created_at pr) dateFrom dateTo \<and> row_triple row = (owner pr, repo pr, author pr))
      \<or> (\<exists>rv \<in> set (reviews pr). qualifies dateFrom dateTo pr rv
            \<and> row_triple row = (owner pr, repo pr, reviewer rv))"
proof -
  from row obtain e where e: "e \<in> set (grouped prs dateFrom dateTo)" and r: "row = to_row e"
    by (auto simp: getDetailedStats_rows)
  have tr: "row_triple row = (a, b, c)"
    if "fst e = key3 a b c" "slash_free a" "slash_free b" "slash_free c" for a b c
  proof -
    have "to_row e = to_row (key3 a b c, snd e)" using that(1) by (simp add: to_row_def)
    then show ?thesis using that r by (simp add: row_triple_to_row)
  qed
  from grouped_origin [OF e] obtain pr where pr: "pr \<in> set prs"
    and c: "(in_window (created_at pr) dateFrom dateTo \<and> fst e = key3 (owner pr) (repo pr) (author pr))
      \<or> (\<exists>rv \<in> set (reviews pr). qualifies dateFrom dateTo pr rv
            \<and> fst e = key3 (owner pr) (repo pr) (reviewer rv))" by blast
  from c show ?thesis
  proof
    assume "in_window (created_at pr) dateFrom dateTo \<and> fst e = key3 (owner pr) (repo pr) (author pr)"
    then show ?thesis
      using pr tr names_slash_freeD [OF sf pr] by blast
  next
    assume "\<exists>rv \<in> set (reviews pr). qualifies dateFrom dateTo pr rv
            \<and> fst e = key3 (owner pr) (repo pr) (reviewer rv)"
    then obtain rv where "rv \<in> set (reviews pr)" "qualifies dateFrom dateTo pr rv"
      "fst e = key3 (owner pr) (repo pr) (reviewer rv)" by blast
    then show ?thesis
      using pr tr names_slash_freeD [OF sf pr] by blast
  qed
qed

subsection \<open>The summary\<close>

lemma totals_of_update_at:
  "totals_of (update_at k f obj) k' =
     (if k' = k \<and> own obj k then f (totals_of obj k) else totals_of obj k')"
  by (auto simp: totals_of_def map_of_update_at own_map_of split: option.splits)

lemma totals_of_ensure: "totals_of (ensure k empty_totals obj) k' = totals_of obj k'"
  by (auto simp: ensure_def absent_def own_map_of totals_of_def map_add_def split: option.splits)

lemma summary_step_plain:
  "\<not> inherited (row_author item) \<Longrightarrow>
   summary_step a item =
     Inr (update_at (row_author item) (add_item item) (ensure (row_author item) empty_totals a))"
  by (simp add: summary_step_def Let_def own_ensure)

lemma own_summary_step:
  "\<not> inherited (row_author item) \<Longrightarrow> summary_step a item = Inr a' \<Longrightarrow>
   own a' k = (own a k \<or> k = row_author item)"
  by (auto simp: summary_step_plain own_update_at own_ensure)

lemma distinct_summary_step:
  "\<not> inherited (row_author item) \<Longrightarrow> summary_step a item = Inr a' \<Longrightarrow>
   distinct (map fst a) \<Longrightarrow> distinct (map fst a')"
  by (auto simp: summary_step_plain distinct_update_at distinct_ensure)

lemma totals_of_summary_step:
  "\<not> inherited (row_author item) \<Longrightarrow> summary_step a item = Inr a' \<Longrightarrow>
   totals_of a' k = (if row_author item = k then add_item item (totals_of a k) else totals_of a k)"
  by (auto simp: summary_step_plain totals_of_update_at totals_of_ensure own_ensure)

lemma reduce_summary_plain:
  assumes "list_all (\<lambda>item. \<not> inherited (row_author item)) items"
  shows "\<exists>a'. reduce_summary a items = Inr a'
     \<and> (\<forall>k. own a' k = (own a k \<or> k \<in> row_author ` set items))
     \<and> (distinct (map fst a) \<longrightarrow> distinct (map fst a'))
     \<and> (\<forall>k. totals_of a' k = foldl (\<lambda>t item. add_item item t) (totals_of a k) (rows_of k items))"
  using assms
proof (induction items arbitrary: a)
  case Nil
  show ?case by (simp add: rows_of_def)
next
  case (Cons item items)
  from Cons.prems have ni: "\<not> inherited (row_author item)"
    and rest: "list_all (\<lambda>item. \<not> inherited (row_author item)) items" by simp_all
  obtain a1 where s: "summary_step a item = Inr a1"
    using summary_step_plain [OF ni] by blast
  from Cons.IH [OF rest, of a1] obtain a' where
    r: "reduce_summary a1 items = Inr a'"
    and o: "\<And>k. own a' k = (own a1 k \<or> k \<in> row_author ` set items)"
    and d: "distinct (map fst a1) \<longrightarrow> distinct (map fst a')"
    and t: "\<And>k. totals_of a' k = foldl (\<lambda>t item. add_item item t) (totals_of a1 k) (rows_of k items)"
    by blast
  have "reduce_summary a (item # items) = Inr a'" using s r by simp
  moreover have "\<forall>k. own a' k = (own a k \<or> k \<in> row_author ` set (item # items))"
    using o own_summary_step [OF ni s] by auto
  moreover have "distinct (map fst a) \<longrightarrow> distinct (map fst a')"
    using d distinct_summary_step [OF ni s] by blast
  moreover have "\<forall>k. totals_of a' k =
      foldl (\<lambda>t item. add_item item t) (totals_of a k) (rows_of k (item # items))"
    using t totals_of_summary_step [OF ni s] by (simp add: rows_of_def)
  ultimately show ?case by blast
qed

lemma set_set_add: "set (set_add x s) = insert x (set s)"
  by (auto simp: set_add_def)

lemma distinct_set_add: "distinct s \<Longrightarrow> distinct (set_add x s)"
  by (simp add: set_add_def)

lemma sums_fold_add_item:
  "pull_requests (foldl (\<lambda>t item. add_item item t) t items) =
     foldl add_number (pull_requests t) (map row_created items)
   \<and> acc_commented (foldl (\<lambda>t item. add_item item t) t items) =
     foldl add_number (acc_commented t) (map row_commented items)
   \<and> acc_approved (foldl (\<lambda>t item. add_item item t) t items) =
     foldl add_number (acc_approved t) (map row_approved items)"
  by (induction items arbitrary: t) (simp_all add: add_item_def)

lemma repos_fold_add_item:
  "set (repos (foldl (\<lambda>t item. add_item item t) t items)) =
     set (repos t) \<union> repo_name ` set (filter has_created items)
   \<and> set (reposReviewed (foldl (\<lambda>t item. add_item item t) t items)) =
     set (reposReviewed t) \<union> repo_name ` set (filter has_reviewed items)"
  by (induction items arbitrary: t)
     (auto simp: add_item_def set_set_add has_created_def has_reviewed_def)

lemma distinct_fold_add_item:
  "distinct (repos t) \<Longrightarrow> distinct (reposReviewed t) \<Longrightarrow>
   distinct (repos (foldl (\<lambda>t item. add_item item t) t items))
   \<and> distinct (reposReviewed (foldl (\<lambda>t item. add_item item t) t items))"
  by (induction items arbitrary: t) (simp_all add: add_item_def distinct_set_add)

lemma join_inject:
  assumes "slash_free a" "slash_free a'" "a @ CHR ''/'' # b = a' @ CHR ''/'' # b'"
  shows "a = a' \<and> b = b'"
proof -
  have "split (CHR ''/'') (a @ CHR ''/'' # b) = split (CHR ''/'') (a' @ CHR ''/'' # b')"
    using assms(3) by simp
  then have "a = a'"
    using assms(1,2) by (simp add: split_append_sep slash_free_def)
  with assms(3) show ?thesis by simp
qed

lemma card_repo_names:
  assumes "\<forall>item \<in> S. slash_free (row_owner item)"
  shows "card (repo_name ` S) = card (repo_pair ` S)"
proof -
  have "inj_on (\<lambda>(a, b). a @ ''/'' @ b) (repo_pair ` S)"
  proof (rule inj_onI)
    fix p q
    assume p: "p \<in> repo_pair ` S" and q: "q \<in> repo_pair ` S"
      and eq: "(\<lambda>(a, b). a @ ''/'' @ b) p = (\<lambda>(a, b). a @ ''/'' @ b) q"
    from p q assms have "slash_free (fst p)" "slash_free (fst q)"
      by (auto simp: repo_pair_def)
    moreover from eq have "fst p @ CHR ''/'' # snd p = fst q @ CHR ''/'' # snd q"
      by (simp add: case_prod_beta)
    ultimately have "fst p = fst q \<and> snd p = snd q" by (rule join_inject)
    then show "p = q" by (simp add: prod_eq_iff)
  qed
  then have "card ((\<lambda>(a, b). a @ ''/'' @ b) ` repo_pair ` S) = card (repo_pair ` S)"
    by (rule card_image)
  moreover have "(\<lambda>(a, b). a @ ''/'' @ b) ` repo_pair ` S = repo_name ` S"
    by (simp add: image_image repo_pair_def repo_name_def)
  ultimately show ?thesis by simp
qed

lemma to_summary_fold:
  assumes "\<forall>item \<in> set stats. slash_free (row_owner item)" and "small_sums (rows_of k stats)"
  shows "to_summary (k, foldl (\<lambda>t item. add_item item t) empty_totals (rows_of k stats)) =
         summary_of k stats"
proof -
  let ?t = "foldl (\<lambda>t item. add_item item t) empty_totals (rows_of k stats)"
  have sf: "\<forall>item \<in> set (filter P (rows_of k stats)). slash_free (row_owner item)" for P
    using assms by (simp add: rows_of_def)
  have d: "distinct (repos ?t)" "distinct (reposReviewed ?t)"
    using distinct_fold_add_item [of empty_totals "rows_of k stats"]
    by (simp_all add: empty_totals_def)
  have "length (repos ?t) = card (set (repos ?t))"
    using d(1) by (simp add: distinct_card)
  also have "\<dots> = card (repo_name ` set (filter has_created (rows_of k stats)))"
    using repos_fold_add_item [of empty_totals "rows_of k stats"] by (simp add: empty_totals_def)
  also have "\<dots> = card (repo_pair ` set (filter has_created (rows_of k stats)))"
    by (rule card_repo_names [OF sf])
  finally have r1: "length (repos ?t) =
      card (repo_pair ` set (filter has_created (rows_of k stats)))" .
  have "length (reposReviewed ?t) = card (set (reposReviewed ?t))"
    using d(2) by (simp add: distinct_card)
  also have "\<dots> = card (repo_name ` set (filter has_reviewed (rows_of k stats)))"
    using repos_fold_add_item [of empty_totals "rows_of k stats"] by (simp add: empty_totals_def)
  also have "\<dots> = card (repo_pair ` set (filter has_reviewed (rows_of k stats)))"
    by (rule card_repo_names [OF sf])
  finally have r2: "length (reposReviewed ?t) =
      card (repo_pair ` set (filter has_reviewed (rows_of k stats)))" .
  from assms(2) have
    "foldl add_number (Finite 0) (map row_created (rows_of k stats)) =
       Finite (sum_list (map row_created (rows_of k stats)))"
    "foldl add_number (Finite 0) (map row_commented (rows_of k stats)) =
       Finite (sum_list (map row_commented (rows_of k stats)))"
    "foldl add_number (Finite 0) (map row_approved (rows_of k stats)) =
       Finite (sum_list (map row_approved (rows_of k stats)))"
    by (simp_all add: small_sums_def fold_add_number)
  then show ?thesis
    using sums_fold_add_item [of empty_totals "rows_of k stats"] r1 r2
    by (simp add: to_summary_def summary_of_def empty_totals_def)
qed

lemma small_sums_rows_of: "small_sums stats \<Longrightarrow> small_sums (rows_of k stats)"
  unfolding small_sums_def rows_of_def
  using sum_list_filter_le_nat [of row_created "\<lambda>item. row_author item = k" stats]
    sum_list_filter_le_nat [of row_commented "\<lambda>item. row_author item = k" stats]
    sum_list_filter_le_nat [of row_approved "\<lambda>item. row_author item = k" stats]
  by linarith

lemma mset_own_entries: "mset (own_entries obj) = mset obj"
  by (simp add: own_entries_def)

lemma set_own_entries: "set (own_entries obj) = set obj"
  using mset_own_entries [of obj] by (metis set_mset_mset)

lemma distinct_own_entries: "distinct (map fst (own_entries obj)) = distinct (map fst obj)"
proof -
  have "mset (map fst (own_entries obj)) = mset (map fst obj)"
    by (simp add: mset_own_entries)
  then show ?thesis by (rule mset_eq_imp_distinct_iff)
qed

lemma totals_entry_iff:
  "distinct (map fst g) \<Longrightarrow> ((k, t) \<in> set g) = (own g k \<and> totals_of g k = t)"
proof -
  assume d: "distinct (map fst g)"
  have "((k, t) \<in> set g) = (map_of g k = Some t)"
    using d by simp
  then show ?thesis
    by (auto simp: own_map_of totals_of_def split: option.splits)
qed

text \<open>The definitions a concrete run of \<open>getSummary\<close> unfolds.\<close>

lemmas run_summary =
  getSummary_def summary_step_def Let_def ensure_def absent_def own_def inherited_def
  Object_prototype_def update_at_def add_item_def set_add_def repo_name_def empty_totals_def
  to_summary_def own_entries_def is_index_def is_digit_def example_row_def add_number_exact

subsection \<open>The counted activity\<close>

lemma counts_of_grouped: "counts_of (grouped prs dateFrom dateTo) k = activity dateFrom dateTo prs k"
  by (rule counters.equality)
     (simp_all add: activity_def created_grouped commented_grouped approved_grouped)

lemma qualifying_reviewer_row:
  assumes "pr \<in> set prs" "rv \<in> set (reviews pr)" "qualifies dateFrom dateTo pr rv"
  shows "to_row (reviewer_key pr rv, activity dateFrom dateTo prs (reviewer_key pr rv))
           \<in> set (getDetailedStats prs dateFrom dateTo)"
proof -
  let ?g = "grouped prs dateFrom dateTo" and ?k = "reviewer_key pr rv"
  have "own ?g ?k"
    using assms by (auto simp: own_grouped touched_def)
  then have "(?k, counts_of ?g ?k) \<in> set ?g"
    by (simp add: entry_iff [OF distinct_grouped])
  then show ?thesis
    by (simp add: getDetailedStats_rows counts_of_grouped image_iff) blast
qed

lemma zero_or_other_state:
  assumes "row \<in> set (getDetailedStats prs dateFrom dateTo)"
  shows "row_created row > 0 \<or> row_commented row > 0 \<or> row_approved row > 0
     \<or> (\<exists>pr \<in> set prs. \<exists>rv \<in> set (reviews pr).
           qualifies dateFrom dateTo pr rv \<and> state rv \<noteq> ''COMMENTED'' \<and> state rv \<noteq> ''APPROVED''
           \<and> row = to_row (reviewer_key pr rv, zero))"
proof -
  let ?g = "grouped prs dateFrom dateTo"
  from assms obtain k c where e: "(k, c) \<in> set ?g" and row: "row = to_row (k, c)"
    by (auto simp: getDetailedStats_rows)
  from e have own: "own ?g k" and c: "counts_of ?g k = c"
    by (simp_all add: entry_iff distinct_grouped)
  from own obtain pr where pr: "pr \<in> set prs"
    and cases: "(in_window (created_at pr) dateFrom dateTo \<and> author_key pr = k)
       \<or> touched dateFrom dateTo pr (reviews pr) k"
    by (auto simp: own_grouped)
  from cases show ?thesis
  proof
    assume "in_window (created_at pr) dateFrom dateTo \<and> author_key pr = k"
    with pr have "0 < created (counts_of ?g k)"
      unfolding created_grouped by (intro filter_pos [of pr]) simp_all
    then show ?thesis by (simp add: row c row_counters)
  next
    assume "touched dateFrom dateTo pr (reviews pr) k"
    then obtain rv where rv: "rv \<in> set (reviews pr)" and q: "qualifies dateFrom dateTo pr rv"
      and k: "reviewer_key pr rv = k"
      by (auto simp: touched_def)
    show ?thesis
    proof (cases "state rv = ''COMMENTED''")
      case True
      with rv q k have "hit ''COMMENTED'' dateFrom dateTo pr (reviews pr) k"
        by (auto simp: hit_def)
      with pr have "0 < commented (counts_of ?g k)"
        unfolding commented_grouped by (intro filter_pos [of pr]) simp_all
      then show ?thesis by (simp add: row c row_counters)
    next
      case notC: False
      show ?thesis
      proof (cases "state rv = ''APPROVED''")
        case True
        with rv q k have "hit ''APPROVED'' dateFrom dateTo pr (reviews pr) k"
          by (auto simp: hit_def)
        with pr have "0 < approved (counts_of ?g k)"
          unfolding approved_grouped by (intro filter_pos [of pr]) simp_all
        then show ?thesis by (simp add: row c row_counters)
      next
        case notA: False
        show ?thesis
        proof (cases "c = zero")
          case True
          with pr rv q k notC notA row show ?thesis by blast
        next
          case False
          then have "created c \<noteq> 0 \<or> commented c \<noteq> 0 \<or> approved c \<noteq> 0"
            by (auto simp: zero_def intro: counters.equality)
          then show ?thesis
            by (auto simp: row row_counters)
        qed
      qed
    qed
  qed
qed

subsection \<open>Names without the separator, authors without inherited names\<close>

lemma rows_keyed_by_triple:
  assumes "names_slash_free prs"
  shows "distinct (map row_triple (getDetailedStats prs dateFrom dateTo))
    \<and> (\<forall>row \<in> set (getDetailedStats prs dateFrom dateTo).
          (\<exists>pr \<in> set prs.
             (in_window (created_at pr) dateFrom dateTo
                \<and> row_triple row = (owner pr, repo pr, author pr))
             \<or> (\<exists>rv \<in> set (reviews pr). qualifies dateFrom dateTo pr rv
                   \<and> row_triple row = (owner pr, repo pr, reviewer rv)))
          \<and> row_created row =
              length (filter (\<lambda>pr. in_window (created_at pr) dateFrom dateTo
                \<and> (owner pr, repo pr, author pr) = row_triple row) prs)
          \<and> row_commented row =
              length (filter (\<lambda>pr. \<exists>rv \<in> set (reviews pr). qualifies dateFrom dateTo pr rv
                \<and> state rv = ''COMMENTED'' \<and> (owner pr, repo pr, reviewer rv) = row_triple row) prs)
          \<and> row_approved row =
              length (filter (\<lambda>pr. \<exists>rv \<in> set (reviews pr). qualifies dateFrom dateTo pr rv
                \<and> state rv = ''APPROVED'' \<and> (owner pr, repo pr, reviewer rv) = row_triple row) prs))"
  using distinct_row_triples [OF assms] row_origin [OF assms] row_counts [OF assms]
  by (intro conjI ballI) blast+

lemma rows_keyed_by_triple_example:
  "names_slash_free
     [example_pr ''acme'' ''widgets'' ''alice'' ''closed'' 16
        [example_review ''COMMENTED'' ''bob'' 17, example_review ''COMMENTED'' ''bob'' 18,
         example_review ''APPROVED'' ''bob'' 19]]
   \<and> distinct (map row_triple (getDetailedStats
        [example_pr ''acme'' ''widgets'' ''alice'' ''closed'' 16
           [example_review ''COMMENTED'' ''bob'' 17, example_review ''COMMENTED'' ''bob'' 18,
            example_review ''APPROVED'' ''bob'' 19]]
        (Date 15) (Date 23)))
   \<and> getDetailedStats
        [example_pr ''acme'' ''widgets'' ''alice'' ''closed'' 16
           [example_review ''COMMENTED'' ''bob'' 17, example_review ''COMMENTED'' ''bob'' 18,
            example_review ''APPROVED'' ''bob'' 19]]
        (Date 15) (Date 23) =
      [\<lparr>row_owner = ''acme'', row_repo = ''widgets'', row_author = ''alice'',
         row_created = 1, row_commented = 0, row_approved = 0\<rparr>,
       \<lparr>row_owner = ''acme'', row_repo = ''widgets'', row_author = ''bob'',
         row_created = 0, row_commented = 1, row_approved = 1\<rparr>]"
proof -
  let ?prs = "[example_pr ''acme'' ''widgets'' ''alice'' ''closed'' 16
        [example_review ''COMMENTED'' ''bob'' 17, example_review ''COMMENTED'' ''bob'' 18,
         example_review ''APPROVED'' ''bob'' 19]]"
  have h: "names_slash_free ?prs"
    by (simp add: names_slash_free_def slash_free_def example_pr_def example_review_def)
  have run: "getDetailedStats ?prs (Date 15) (Date 23) =
      [\<lparr>row_owner = ''acme'', row_repo = ''widgets'', row_author = ''alice'',
         row_created = 1, row_commented = 0, row_approved = 0\<rparr>,
       \<lparr>row_owner = ''acme'', row_repo = ''widgets'', row_author = ''bob'',
         row_created = 0, row_commented = 1, row_approved = 1\<rparr>]"
    by (simp add: run_detailed)
  show ?thesis
    using h run rows_keyed_by_triple [OF h, of "Date 15" "Date 23", THEN conjunct1] by simp
qed

lemma getSummary_plain_rows:
  assumes "plain_rows stats" and ss: "small_sums stats"
  shows "\<exists>out. getSummary stats = Inr out
     \<and> distinct (map sum_author out)
     \<and> set (map sum_author out) = set (map row_author stats)
     \<and> (\<forall>r \<in> set out. r = summary_of (sum_author r) stats)"
proof -
  from assms have ni: "list_all (\<lambda>item. \<not> inherited (row_author item)) stats"
    and sf: "\<forall>item \<in> set stats. slash_free (row_owner item)"
    by (simp_all add: plain_rows_def list_all_iff)
  from reduce_summary_plain [OF ni, of "[]"] obtain fin where
    r: "reduce_summary [] stats = Inr fin"
    and o: "\<And>k. own fin k = (k \<in> row_author ` set stats)"
    and d: "distinct (map fst fin)"
    and t: "\<And>k. totals_of fin k = foldl (\<lambda>t item. add_item item t) empty_totals (rows_of k stats)"
    by (auto simp: own_def totals_of_def)
  let ?out = "map to_summary (own_entries fin)"
  have authors: "map sum_author ?out = map fst (own_entries fin)"
    by (simp add: to_summary_def)
  have 1: "getSummary stats = Inr ?out" by (simp add: getSummary_def r)
  have 2: "distinct (map sum_author ?out)"
    unfolding authors by (simp add: distinct_own_entries d)
  have "set (map fst (own_entries fin)) = set (map fst fin)"
    by (simp add: set_own_entries)
  also have "\<dots> = set (map row_author stats)"
    using o by (auto simp: own_def)
  finally have 3: "set (map sum_author ?out) = set (map row_author stats)"
    unfolding authors .
  have 4: "\<forall>r \<in> set ?out. r = summary_of (sum_author r) stats"
  proof
    fix row assume "row \<in> set ?out"
    then obtain k tt where e: "(k, tt) \<in> set fin" and row: "row = to_summary (k, tt)"
      by (auto simp: set_own_entries)
    from e have "totals_of fin k = tt" by (simp add: totals_entry_iff [OF d])
    then have "row = to_summary (k, foldl (\<lambda>t item. add_item item t) empty_totals (rows_of k stats))"
      using row t by simp
    then have "row = summary_of k stats" by (simp add: to_summary_fold [OF sf small_sums_rows_of [OF ss]])
    moreover have "sum_author row = k" by (simp add: row to_summary_def)
    ultimately show "row = summary_of (sum_author row) stats" by simp
  qed
  from 1 2 3 4 show ?thesis by blast
qed

lemma getSummary_plain_rows_example:
  "plain_rows [example_row ''acme'' ''widgets'' ''alice'' 2 0 0,
               example_row ''acme'' ''widgets'' ''bob'' 0 2 1]
   \<and> getSummary [example_row ''acme'' ''widgets'' ''alice'' 2 0 0,
                  example_row ''acme'' ''widgets'' ''bob'' 0 2 1] =
       Inr [\<lparr>sum_author = ''alice'', sum_pull_requests = Finite 2, sum_repos = 1, sum_commented = Finite 0,
             sum_approved = Finite 0, sum_repos_reviewed = 0\<rparr>,
            \<lparr>sum_author = ''bob'', sum_pull_requests = Finite 0, sum_repos = 0, sum_commented = Finite 2,
             sum_approved = Finite 1, sum_repos_reviewed = 1\<rparr>]
   \<and> (\<exists>out. getSummary [example_row ''acme'' ''widgets'' ''alice'' 2 0 0,
                         example_row ''acme'' ''widgets'' ''bob'' 0 2 1] = Inr out
         \<and> distinct (map sum_author out)
         \<and> set (map sum_author out) =
             set (map row_author [example_row ''acme'' ''widgets'' ''alice'' 2 0 0,
                                  example_row ''acme'' ''widgets'' ''bob'' 0 2 1])
         \<and> (\<forall>r \<in> set out. r = summary_of (sum_author r)
               [example_row ''acme'' ''widgets'' ''alice'' 2 0 0,
                example_row ''acme'' ''widgets'' ''bob'' 0 2 1]))"
proof -
  let ?stats = "[example_row ''acme'' ''widgets'' ''alice'' 2 0 0,
                 example_row ''acme'' ''widgets'' ''bob'' 0 2 1]"
  have h: "plain_rows ?stats"
    by (simp add: plain_rows_def slash_free_def inherited_def Object_prototype_def example_row_def)
  have run: "getSummary ?stats =
       Inr [\<lparr>sum_author = ''alice'', sum_pull_requests = Finite 2, sum_repos = 1, sum_commented = Finite 0,
             sum_approved = Finite 0, sum_repos_reviewed = 0\<rparr>,
            \<lparr>sum_author = ''bob'', sum_pull_requests = Finite 0, sum_repos = 0, sum_commented = Finite 2,
             sum_approved = Finite 1, sum_repos_reviewed = 1\<rparr>]"
    by (simp add: run_summary)
  have b: "small_sums ?stats"
    by (simp add: small_sums_def example_row_def)
  from h run getSummary_plain_rows [OF h b] show ?thesis by blast
qed

subsection \<open>The rows handed to the summary\<close>

lemma split_pieces: "p \<in> set (split c s) \<Longrightarrow> c \<notin> set p"
  by (induction s arbitrary: p) (auto split: if_splits list.splits)

lemma element_split: "i < length (split c s) \<Longrightarrow> c \<notin> set (element (split c s) i)"
  using split_pieces [of "split c s ! i" c s] by (simp add: element_def)

lemma detailed_rows_slash_free:
  assumes "row \<in> set (getDetailedStats prs dateFrom dateTo)"
  shows "slash_free (row_owner row) \<and> slash_free (row_repo row) \<and> slash_free (row_author row)"
proof -
  from assms obtain e where e: "e \<in> set (grouped prs dateFrom dateTo)" and r: "row = to_row e"
    by (auto simp: getDetailedStats_rows)
  from grouped_origin [OF e] obtain a b c where "fst e = key3 a b c" by blast
  then have "3 \<le> length (split (CHR ''/'') (fst e))"
    by (simp add: length_split_key)
  then have "i < 3 \<Longrightarrow> CHR ''/'' \<notin> set (element (split (CHR ''/'') (fst e)) i)" for i
    by (intro element_split) simp
  from this [of 0] this [of 1] this [of 2] show ?thesis
    by (simp add: r to_row_def Let_def slash_free_def)
qed

lemma getSummary_of_detailed:
  assumes "list_all (\<lambda>row. \<not> inherited (row_author row)) (getDetailedStats prs dateFrom dateTo)"
    and "small_sums (getDetailedStats prs dateFrom dateTo)"
  shows "\<exists>out. getSummary (getDetailedStats prs dateFrom dateTo) = Inr out
     \<and> distinct (map sum_author out)
     \<and> set (map sum_author out) = set (map row_author (getDetailedStats prs dateFrom dateTo))
     \<and> (\<forall>r \<in> set out. r = summary_of (sum_author r) (getDetailedStats prs dateFrom dateTo))"
proof (rule getSummary_plain_rows [OF _ assms(2)])
  show "plain_rows (getDetailedStats prs dateFrom dateTo)"
    using assms(1) detailed_rows_slash_free [of _ prs dateFrom dateTo]
    by (simp add: plain_rows_def list_all_iff)
qed

section \<open>The claims\<close>

text \<open>
  C9. On an empty input both aggregations return an empty output and raise no error:
  \<open>getDetailedStats\<close> of no pull requests is the empty row list, and \<open>getSummary\<close> of no
  detailed rows returns (on the \<open>Inr\<close> side, that is without an exception) the empty list.
\<close>

theorem empty_input_empty_output:
  "getDetailedStats [] dateFrom dateTo = [] \<and> getSummary [] = Inr []"
  by (simp add: getDetailedStats_def grouped_def getSummary_def own_entries_def)

theorem empty_input_empty_output_witness:
  "getDetailedStats [] (Date 15) (Date 23) = [] \<and> getSummary [] = Inr []"
  using empty_input_empty_output [of "Date 15" "Date 23"] by simp

text \<open>
  C5. \<open>filterPullRequestList\<close> keeps a pull request exactly when its state is \<open>open\<close> or
  its creation time lies strictly inside the window; in particular an open pull request
  is kept whatever its creation time.
\<close>

theorem filterPullRequestList_iff:
  "(filterPullRequestList pr dateFrom dateTo \<longleftrightarrow>
      api_state pr = ''open'' \<or> in_window (api_created_at pr) dateFrom dateTo)
   \<and> (api_state pr = ''open'' \<longrightarrow> filterPullRequestList pr dateFrom dateTo)
   \<and> (filterPullRequestList \<lparr>api_state = st, api_created_at = Date x\<rparr> (Date a) (Date b) \<longleftrightarrow>
        st = ''open'' \<or> (a < x \<and> x < b))"
  by (auto simp: filterPullRequestList_def in_window_def date_greater_def)

theorem filterPullRequestList_iff_witness:
  "filterPullRequestList \<lparr>api_state = ''open'', api_created_at = Date 3\<rparr> (Date 15) (Date 23)
   \<and> \<not> filterPullRequestList \<lparr>api_state = ''closed'', api_created_at = Date 15\<rparr> (Date 15) (Date 23)
   \<and> filterPullRequestList \<lparr>api_state = ''closed'', api_created_at = Date 16\<rparr> (Date 15) (Date 23)"
  using
    filterPullRequestList_iff [of "\<lparr>api_state = ''open'', api_created_at = Date 3\<rparr>"
      "Date 15" "Date 23" "''closed''" 15 15 23]
    filterPullRequestList_iff [of "\<lparr>api_state = ''open'', api_created_at = Date 3\<rparr>"
      "Date 15" "Date 23" "''closed''" 16 15 23]
  by simp

text \<open>
  C4. The interval check used for counting is strict at both ends. The check is truthy
  exactly for \<open>dateFrom < x < dateTo\<close>; a time equal to \<open>dateFrom\<close> or to \<open>dateTo\<close> is
  outside. A pull request adds one to \<open>created\<close> (under its author's key) exactly when its
  creation time is strictly inside, and a review submitted outside changes nothing.
\<close>

theorem counting_window_strict:
  "(truthy (validInterval (Date x) (Date a) (Date b)) \<longleftrightarrow> a < x \<and> x < b)
   \<and> (truthy (validInterval d dateFrom dateTo) \<longleftrightarrow> in_window d dateFrom dateTo)
   \<and> \<not> in_window dateFrom dateFrom dateTo
   \<and> \<not> in_window dateTo dateFrom dateTo
   \<and> created (counts_of (pr_step dateFrom dateTo a0 pr) k) =
        created (counts_of a0 k)
          + (if in_window (created_at pr) dateFrom dateTo \<and> author_key pr = k then 1 else 0)
   \<and> (\<not> in_window (submited_at rv) dateFrom dateTo \<longrightarrow> review_step dateFrom dateTo pr s rv = s)"
proof -
  have strict: "\<not> date_less y y" for y by (cases y) simp_all
  have 1: "truthy (validInterval (Date x) (Date a) (Date b)) \<longleftrightarrow> a < x \<and> x < b"
    by (simp add: truthy_validInterval in_window_def)
  have 2: "\<not> in_window dateFrom dateFrom dateTo" "\<not> in_window dateTo dateFrom dateTo"
    by (simp_all add: in_window_def strict)
  have 3: "\<not> in_window (submited_at rv) dateFrom dateTo \<longrightarrow> review_step dateFrom dateTo pr s rv = s"
    by (simp add: review_step_skip qualifies_def)
  show ?thesis
    using 1 2 3 by (simp only: truthy_validInterval created_pr_step simp_thms)
qed

theorem counting_window_strict_witness:
  "\<not> in_window (Date 23) (Date 15) (Date 23)
   \<and> review_step (Date 15) (Date 23) (example_pr ''acme'' ''widgets'' ''alice'' ''closed'' 15 [])
        (fresh_pass []) (example_review ''COMMENTED'' ''bob'' 23) = fresh_pass []
   \<and> created (counts_of (pr_step (Date 15) (Date 23) []
        (example_pr ''acme'' ''widgets'' ''alice'' ''closed'' 15 [])) ''acme/widgets/alice'') = 0
   \<and> truthy (validInterval (Date 16) (Date 15) (Date 23))
   \<and> \<not> truthy (validInterval (Date 15) (Date 15) (Date 23))"
  using
    counting_window_strict [of 16 15 23 "Date 15" "Date 15" "Date 23" "[]"
      "example_pr ''acme'' ''widgets'' ''alice'' ''closed'' 15 []" "''acme/widgets/alice''"
      "example_review ''COMMENTED'' ''bob'' 23" "fresh_pass []"]
  by (simp add: in_window_def example_review_def example_pr_def counts_of_def zero_def)

text \<open>
  C1. Within one pull request the \<open>commented\<close> counter (and likewise the \<open>approved\<close>
  counter) of a key rises by exactly one when the pull request has at least one
  qualifying review of that state under that key, and by nothing otherwise, however many
  such reviews there are. A review whose reviewer is already marked for its state on this
  pull request is skipped: no counter and no marker changes, and there is no error.
\<close>

theorem counted_once_per_pull_request:
  "commented (counts_of (pr_step dateFrom dateTo a pr) k) =
      commented (counts_of a k)
        + (if hit ''COMMENTED'' dateFrom dateTo pr (reviews pr) k then 1 else 0)
   \<and> approved (counts_of (pr_step dateFrom dateTo a pr) k) =
      approved (counts_of a k)
        + (if hit ''APPROVED'' dateFrom dateTo pr (reviews pr) k then 1 else 0)
   \<and> (state rv = ''COMMENTED'' \<and> reviewer_key pr rv \<in> set (reviewsCommented s) \<longrightarrow>
        counts_of (acc (review_step dateFrom dateTo pr s rv)) k = counts_of (acc s) k
        \<and> reviewsCommented (review_step dateFrom dateTo pr s rv) = reviewsCommented s
        \<and> reviewsApproved (review_step dateFrom dateTo pr s rv) = reviewsApproved s)
   \<and> (state rv = ''APPROVED'' \<and> reviewer_key pr rv \<in> set (reviewsApproved s) \<longrightarrow>
        counts_of (acc (review_step dateFrom dateTo pr s rv)) k = counts_of (acc s) k
        \<and> reviewsCommented (review_step dateFrom dateTo pr s rv) = reviewsCommented s
        \<and> reviewsApproved (review_step dateFrom dateTo pr s rv) = reviewsApproved s)"
  using counts_of_skip_commented [of rv pr s dateFrom dateTo k]
    counts_of_skip_approved [of rv pr s dateFrom dateTo k]
  by (simp only: commented_pr_step approved_pr_step simp_thms) blast

theorem counted_once_per_pull_request_witness:
  "commented (counts_of (pr_step (Date 15) (Date 23) []
      (example_pr ''acme'' ''widgets'' ''alice'' ''closed'' 16
        [example_review ''COMMENTED'' ''bob'' 17, example_review ''COMMENTED'' ''bob'' 18,
         example_review ''APPROVED'' ''bob'' 19])) ''acme/widgets/bob'') = 1
   \<and> approved (counts_of (pr_step (Date 15) (Date 23) []
      (example_pr ''acme'' ''widgets'' ''alice'' ''closed'' 16
        [example_review ''COMMENTED'' ''bob'' 17, example_review ''COMMENTED'' ''bob'' 18,
         example_review ''APPROVED'' ''bob'' 19])) ''acme/widgets/bob'') = 1
   \<and> reviewsCommented (review_step (Date 15) (Date 23)
        (example_pr ''acme'' ''widgets'' ''alice'' ''closed'' 16 [])
        \<lparr>acc = [(''acme/widgets/bob'', \<lparr>created = 0, commented = 1, approved = 0\<rparr>)],
         reviewsCommented = [''acme/widgets/bob''], reviewsApproved = []\<rparr>
        (example_review ''COMMENTED'' ''bob'' 18)) = [''acme/widgets/bob'']
   \<and> commented (counts_of (acc (review_step (Date 15) (Date 23)
        (example_pr ''acme'' ''widgets'' ''alice'' ''closed'' 16 [])
        \<lparr>acc = [(''acme/widgets/bob'', \<lparr>created = 0, commented = 1, approved = 0\<rparr>)],
         reviewsCommented = [''acme/widgets/bob''], reviewsApproved = []\<rparr>
        (example_review ''COMMENTED'' ''bob'' 18))) ''acme/widgets/bob'') = 1"
  using
    counted_once_per_pull_request [of "Date 15" "Date 23" "[]"
      "example_pr ''acme'' ''widgets'' ''alice'' ''closed'' 16
        [example_review ''COMMENTED'' ''bob'' 17, example_review ''COMMENTED'' ''bob'' 18,
         example_review ''APPROVED'' ''bob'' 19]"
      "''acme/widgets/bob''" "example_review ''COMMENTED'' ''bob'' 18"
      "\<lparr>acc = [(''acme/widgets/bob'', \<lparr>created = 0, commented = 1, approved = 0\<rparr>)],
         reviewsCommented = [''acme/widgets/bob''], reviewsApproved = []\<rparr>"]
  by (simp add: hit_def qualifies_def in_window_def reviewer_key_def key3_def example_pr_def
      example_review_def counts_of_def zero_def review_step_def Let_def marked_def ensure_def
      absent_def own_def)

text \<open>
  C3. A review written by the author of the pull request changes nothing, whatever its
  state and time: the step for such a review returns its state unchanged, and deleting
  all self-reviews from the input leaves the result of \<open>getDetailedStats\<close> unchanged.
\<close>

theorem self_reviews_never_count:
  "(reviewer rv = author pr \<longrightarrow> review_step dateFrom dateTo pr s rv = s)
   \<and> pr_step dateFrom dateTo a (drop_self_reviews pr) = pr_step dateFrom dateTo a pr
   \<and> getDetailedStats (map drop_self_reviews prs) dateFrom dateTo = getDetailedStats prs dateFrom dateTo"
  by (simp add: review_step_self pr_step_drop_self getDetailedStats_def grouped_def reduce_drop_self)

theorem self_reviews_never_count_witness:
  "review_step (Date 15) (Date 23)
     (example_pr ''acme'' ''widgets'' ''alice'' ''closed'' 16
        [example_review ''APPROVED'' ''alice'' 17, example_review ''COMMENTED'' ''alice'' 18])
     (fresh_pass []) (example_review ''APPROVED'' ''alice'' 17) = fresh_pass []
   \<and> getDetailedStats
        [example_pr ''acme'' ''widgets'' ''alice'' ''closed'' 16
           [example_review ''APPROVED'' ''alice'' 17, example_review ''COMMENTED'' ''alice'' 18]]
        (Date 15) (Date 23) =
      getDetailedStats [example_pr ''acme'' ''widgets'' ''alice'' ''closed'' 16 []] (Date 15) (Date 23)"
  using
    self_reviews_never_count [of "example_review ''APPROVED'' ''alice'' 17"
      "example_pr ''acme'' ''widgets'' ''alice'' ''closed'' 16
           [example_review ''APPROVED'' ''alice'' 17, example_review ''COMMENTED'' ''alice'' 18]"
      "Date 15" "Date 23" "fresh_pass []" "[]"
      "[example_pr ''acme'' ''widgets'' ''alice'' ''closed'' 16
           [example_review ''APPROVED'' ''alice'' 17, example_review ''COMMENTED'' ''alice'' 18]]"]
  by (simp add: drop_self_reviews_def example_pr_def example_review_def review_step_reviews_update)

text \<open>
  C6. A pull request that is \<open>open\<close> but was created outside the strict window adds
  nothing to any \<open>created\<close> counter. Its reviews are processed as for any other pull
  request: the step is exactly the pass over its reviews, and \<open>commented\<close> and
  \<open>approved\<close> rise by one under each key with a qualifying review of that state.
\<close>

theorem open_pull_request_outside_window:
  assumes "pr_state pr = ''open''" and "\<not> in_window (created_at pr) dateFrom dateTo"
  shows "created (counts_of (pr_step dateFrom dateTo a pr) k) = created (counts_of a k)
   \<and> commented (counts_of (pr_step dateFrom dateTo a pr) k) =
        commented (counts_of a k)
          + (if hit ''COMMENTED'' dateFrom dateTo pr (reviews pr) k then 1 else 0)
   \<and> approved (counts_of (pr_step dateFrom dateTo a pr) k) =
        approved (counts_of a k)
          + (if hit ''APPROVED'' dateFrom dateTo pr (reviews pr) k then 1 else 0)
   \<and> pr_step dateFrom dateTo a pr =
        acc (foldl (review_step dateFrom dateTo pr) (fresh_pass a) (reviews pr))"
  using assms(2)
  by (simp add: created_pr_step commented_pr_step approved_pr_step)
     (simp add: pr_step_def fresh_pass_def truthy_validInterval)

theorem open_pull_request_outside_window_witness:
  "pr_state (example_pr ''acme'' ''widgets'' ''alice'' ''open'' 3
      [example_review ''COMMENTED'' ''bob'' 17, example_review ''APPROVED'' ''bob'' 23]) = ''open''
   \<and> \<not> in_window (created_at (example_pr ''acme'' ''widgets'' ''alice'' ''open'' 3
      [example_review ''COMMENTED'' ''bob'' 17, example_review ''APPROVED'' ''bob'' 23]))
        (Date 15) (Date 23)
   \<and> created (counts_of (pr_step (Date 15) (Date 23) []
       (example_pr ''acme'' ''widgets'' ''alice'' ''open'' 3
         [example_review ''COMMENTED'' ''bob'' 17, example_review ''APPROVED'' ''bob'' 23]))
       ''acme/widgets/alice'') = 0
   \<and> commented (counts_of (pr_step (Date 15) (Date 23) []
       (example_pr ''acme'' ''widgets'' ''alice'' ''open'' 3
         [example_review ''COMMENTED'' ''bob'' 17, example_review ''APPROVED'' ''bob'' 23]))
       ''acme/widgets/bob'') = 1
   \<and> approved (counts_of (pr_step (Date 15) (Date 23) []
       (example_pr ''acme'' ''widgets'' ''alice'' ''open'' 3
         [example_review ''COMMENTED'' ''bob'' 17, example_review ''APPROVED'' ''bob'' 23]))
       ''acme/widgets/bob'') = 0"
proof -
  let ?pr = "example_pr ''acme'' ''widgets'' ''alice'' ''open'' 3
      [example_review ''COMMENTED'' ''bob'' 17, example_review ''APPROVED'' ''bob'' 23]"
  have h1: "pr_state ?pr = ''open''" by (simp add: example_pr_def)
  have h2: "\<not> in_window (created_at ?pr) (Date 15) (Date 23)"
    by (simp add: example_pr_def in_window_def)
  note alice = open_pull_request_outside_window [OF h1 h2, of "[]" "''acme/widgets/alice''"]
  note bob = open_pull_request_outside_window [OF h1 h2, of "[]" "''acme/widgets/bob''"]
  have c1: "created (counts_of (pr_step (Date 15) (Date 23) [] ?pr) ''acme/widgets/alice'') = 0"
    using alice [THEN conjunct1] by (simp add: counts_of_Nil zero_def)
  have c2: "commented (counts_of (pr_step (Date 15) (Date 23) [] ?pr) ''acme/widgets/bob'') = 1"
    using bob [THEN conjunct2, THEN conjunct1]
    by (simp add: hit_def qualifies_def in_window_def reviewer_key_def key3_def example_pr_def
        example_review_def counts_of_Nil zero_def)
  have c3: "approved (counts_of (pr_step (Date 15) (Date 23) [] ?pr) ''acme/widgets/bob'') = 0"
    using bob [THEN conjunct2, THEN conjunct2, THEN conjunct1]
    by (simp add: hit_def qualifies_def in_window_def reviewer_key_def key3_def example_pr_def
        example_review_def counts_of_Nil zero_def)
  show ?thesis
    using h1 h2 c1 c2 c3 by blast
qed

text \<open>
  C10. Reordering the reviews inside any of the pull requests changes no counter: the
  detailed tables of the two inputs hold the same rows (possibly in another order), and
  under every key the three counters agree.
\<close>

theorem review_order_irrelevant:
  assumes "list_all2 reviews_reordered prs prs'"
  shows "mset (getDetailedStats prs' dateFrom dateTo) = mset (getDetailedStats prs dateFrom dateTo)
    \<and> counts_of (grouped prs' dateFrom dateTo) k = counts_of (grouped prs dateFrom dateTo) k"
proof -
  have "mset (grouped prs' dateFrom dateTo) = mset (grouped prs dateFrom dateTo)"
    by (rule same_entries)
       (simp_all add: distinct_grouped reordered_own [OF assms] reordered_counts [OF assms])
  then have "mset (map to_row (grouped prs' dateFrom dateTo)) =
             mset (map to_row (grouped prs dateFrom dateTo))"
    by (metis mset_map)
  then show ?thesis
    by (simp add: getDetailedStats_rows reordered_counts [OF assms])
qed

theorem review_order_irrelevant_witness:
  "list_all2 reviews_reordered
     [example_pr ''acme'' ''widgets'' ''alice'' ''closed'' 16
        [example_review ''COMMENTED'' ''bob'' 17, example_review ''APPROVED'' ''carol'' 18]]
     [example_pr ''acme'' ''widgets'' ''alice'' ''closed'' 16
        [example_review ''APPROVED'' ''carol'' 18, example_review ''COMMENTED'' ''bob'' 17]]
   \<and> mset (getDetailedStats
        [example_pr ''acme'' ''widgets'' ''alice'' ''closed'' 16
          [example_review ''APPROVED'' ''carol'' 18, example_review ''COMMENTED'' ''bob'' 17]]
        (Date 15) (Date 23)) =
     mset (getDetailedStats
        [example_pr ''acme'' ''widgets'' ''alice'' ''closed'' 16
          [example_review ''COMMENTED'' ''bob'' 17, example_review ''APPROVED'' ''carol'' 18]]
        (Date 15) (Date 23))"
proof -
  have h: "list_all2 reviews_reordered
     [example_pr ''acme'' ''widgets'' ''alice'' ''closed'' 16
        [example_review ''COMMENTED'' ''bob'' 17, example_review ''APPROVED'' ''carol'' 18]]
     [example_pr ''acme'' ''widgets'' ''alice'' ''closed'' 16
        [example_review ''APPROVED'' ''carol'' 18, example_review ''COMMENTED'' ''bob'' 17]]"
    by (simp add: reviews_reordered_def example_pr_def example_review_def)
  show ?thesis
    using h review_order_irrelevant [OF h, of "Date 15" "Date 23", THEN conjunct1] by blast
qed

text \<open>
  C7, as amended. The claim that no all-zero row is ever emitted fails: a qualifying
  review creates the reviewer's row before its state is looked at, so a reviewer whose
  only qualifying review is, say, \<open>CHANGES_REQUESTED\<close> gets a row of three zeros.
  What holds: every row has a nonzero counter, or is the all-zero row of the key of a
  qualifying review whose state is neither \<open>COMMENTED\<close> nor \<open>APPROVED\<close>; and every
  qualifying review, whatever its state, gives its reviewer a row, which carries the
  counted activity under the reviewer's key and so is the all-zero row when there is no
  such activity.
\<close>

theorem rows_nonzero_or_other_state:
  "(\<forall>row \<in> set (getDetailedStats prs dateFrom dateTo).
      row_created row > 0 \<or> row_commented row > 0 \<or> row_approved row > 0
      \<or> (\<exists>pr \<in> set prs. \<exists>rv \<in> set (reviews pr).
            qualifies dateFrom dateTo pr rv \<and> state rv \<noteq> ''COMMENTED'' \<and> state rv \<noteq> ''APPROVED''
            \<and> row = to_row (reviewer_key pr rv, zero)))
   \<and> (\<forall>pr \<in> set prs. \<forall>rv \<in> set (reviews pr). qualifies dateFrom dateTo pr rv \<longrightarrow>
        to_row (reviewer_key pr rv, activity dateFrom dateTo prs (reviewer_key pr rv))
          \<in> set (getDetailedStats prs dateFrom dateTo)
        \<and> (activity dateFrom dateTo prs (reviewer_key pr rv) = zero \<longrightarrow>
             (\<exists>row \<in> set (getDetailedStats prs dateFrom dateTo).
                row = to_row (reviewer_key pr rv, zero)
                \<and> row_created row = 0 \<and> row_commented row = 0 \<and> row_approved row = 0)))"
proof (intro conjI ballI impI)
  fix row assume "row \<in> set (getDetailedStats prs dateFrom dateTo)"
  then show "row_created row > 0 \<or> row_commented row > 0 \<or> row_approved row > 0
      \<or> (\<exists>pr \<in> set prs. \<exists>rv \<in> set (reviews pr).
            qualifies dateFrom dateTo pr rv \<and> state rv \<noteq> ''COMMENTED'' \<and> state rv \<noteq> ''APPROVED''
            \<and> row = to_row (reviewer_key pr rv, zero))"
    by (rule zero_or_other_state)
next
  fix pr rv
  assume a: "pr \<in> set prs" "rv \<in> set (reviews pr)" "qualifies dateFrom dateTo pr rv"
  show "to_row (reviewer_key pr rv, activity dateFrom dateTo prs (reviewer_key pr rv))
          \<in> set (getDetailedStats prs dateFrom dateTo)"
    using a by (rule qualifying_reviewer_row)
  assume z: "activity dateFrom dateTo prs (reviewer_key pr rv) = zero"
  have "to_row (reviewer_key pr rv, zero) \<in> set (getDetailedStats prs dateFrom dateTo)"
    using qualifying_reviewer_row [OF a] z by simp
  then show "\<exists>row \<in> set (getDetailedStats prs dateFrom dateTo).
                row = to_row (reviewer_key pr rv, zero)
                \<and> row_created row = 0 \<and> row_commented row = 0 \<and> row_approved row = 0"
    by (simp add: row_counters zero_def)
qed

theorem all_zero_row_counterexample:
  "getDetailedStats
     [example_pr ''acme'' ''widgets'' ''alice'' ''closed'' 16
        [example_review ''CHANGES_REQUESTED'' ''carol'' 17]]
     (Date 15) (Date 23) =
   [\<lparr>row_owner = ''acme'', row_repo = ''widgets'', row_author = ''alice'',
      row_created = 1, row_commented = 0, row_approved = 0\<rparr>,
    \<lparr>row_owner = ''acme'', row_repo = ''widgets'', row_author = ''carol'',
      row_created = 0, row_commented = 0, row_approved = 0\<rparr>]"
  by (simp add: run_detailed)

theorem rows_nonzero_or_other_state_witness:
  "qualifies (Date 15) (Date 23)
     (example_pr ''acme'' ''widgets'' ''alice'' ''closed'' 16
        [example_review ''CHANGES_REQUESTED'' ''carol'' 17])
     (example_review ''CHANGES_REQUESTED'' ''carol'' 17)
   \<and> activity (Date 15) (Date 23)
        [example_pr ''acme'' ''widgets'' ''alice'' ''closed'' 16
           [example_review ''CHANGES_REQUESTED'' ''carol'' 17]]
        ''acme/widgets/carol'' = zero
   \<and> \<lparr>row_owner = ''acme'', row_repo = ''widgets'', row_author = ''carol'',
       row_created = 0, row_commented = 0, row_approved = 0\<rparr>
     \<in> set (getDetailedStats
          [example_pr ''acme'' ''widgets'' ''alice'' ''closed'' 16
             [example_review ''CHANGES_REQUESTED'' ''carol'' 17]]
          (Date 15) (Date 23))
   \<and> (\<exists>pr \<in> set [example_pr ''acme'' ''widgets'' ''alice'' ''closed'' 16
                     [example_review ''CHANGES_REQUESTED'' ''carol'' 17]].
        \<exists>rv \<in> set (reviews pr).
          qualifies (Date 15) (Date 23) pr rv \<and> state rv \<noteq> ''COMMENTED'' \<and> state rv \<noteq> ''APPROVED''
          \<and> \<lparr>row_owner = ''acme'', row_repo = ''widgets'', row_author = ''carol'',
               row_created = 0, row_commented = 0, row_approved = 0\<rparr>
             = to_row (reviewer_key pr rv, zero))"
proof -
  let ?rv = "example_review ''CHANGES_REQUESTED'' ''carol'' 17"
  let ?pr = "example_pr ''acme'' ''widgets'' ''alice'' ''closed'' 16 [?rv]"
  let ?row = "\<lparr>row_owner = ''acme'', row_repo = ''widgets'', row_author = ''carol'',
      row_created = 0, row_commented = 0, row_approved = 0\<rparr>"
  note inst = rows_nonzero_or_other_state [of "[?pr]" "Date 15" "Date 23"]
  have q: "qualifies (Date 15) (Date 23) ?pr ?rv"
    by (simp add: qualifies_def in_window_def example_pr_def example_review_def)
  have k: "reviewer_key ?pr ?rv = ''acme/widgets/carol''"
    by (simp add: reviewer_key_def key3_def example_pr_def example_review_def)
  have z: "activity (Date 15) (Date 23) [?pr] ''acme/widgets/carol'' = zero"
    by (simp add: activity_def zero_def author_key_def key3_def hit_def in_window_def
        qualifies_def example_pr_def example_review_def)
  have r: "to_row (''acme/widgets/carol'', zero) = ?row"
    by (simp add: to_row_def zero_def element_def)
  have "pr \<in> set [?pr] \<Longrightarrow> rv \<in> set (reviews pr) \<Longrightarrow> qualifies (Date 15) (Date 23) pr rv \<Longrightarrow>
      activity (Date 15) (Date 23) [?pr] (reviewer_key pr rv) = zero \<Longrightarrow>
      to_row (reviewer_key pr rv, zero) \<in> set (getDetailedStats [?pr] (Date 15) (Date 23))" for pr rv
    using inst [THEN conjunct2] by blast
  from this [of ?pr ?rv] q z k r
  have mem: "?row \<in> set (getDetailedStats [?pr] (Date 15) (Date 23))"
    by (simp add: example_pr_def)
  from inst [THEN conjunct1] mem
  have "\<exists>pr \<in> set [?pr]. \<exists>rv \<in> set (reviews pr).
          qualifies (Date 15) (Date 23) pr rv \<and> state rv \<noteq> ''COMMENTED'' \<and> state rv \<noteq> ''APPROVED''
          \<and> ?row = to_row (reviewer_key pr rv, zero)"
    by fastforce
  with q z mem show ?thesis by blast
qed


text \<open>
  C2. \<open>getSummary\<close> is to give exactly one row per distinct author, with the sums and
  the repository counts of that author's detailed rows. The code keeps the totals in a
  plain object, so an author named like a property that every object inherits
  (\<open>constructor\<close>, \<open>toString\<close>, ...) is taken for an entry that exists already: no
  totals are created, and \<open>.repos.add\<close> on the inherited function throws. Here one pull
  request by the author \<open>constructor\<close> gives the detailed row with \<open>created = 1\<close>, and
  \<open>getSummary\<close> of it throws a \<open>TypeError\<close> where the claim has the row of
  \<open>constructor\<close> with \<open>pull_requests = 1\<close> and \<open>repos = 1\<close>. For authors without
  such a name, and sums below \<open>2^53\<close>, the summary is as the claim says (lemmas
  \<open>getSummary_plain_rows\<close> and \<open>getSummary_of_detailed\<close>).
\<close>

theorem inherited_author_breaks_summary:
  "getDetailedStats [example_pr ''acme'' ''widgets'' ''constructor'' ''closed'' 16 []]
     (Date 15) (Date 23) =
   [\<lparr>row_owner = ''acme'', row_repo = ''widgets'', row_author = ''constructor'',
      row_created = 1, row_commented = 0, row_approved = 0\<rparr>]
   \<and> getSummary
        (getDetailedStats [example_pr ''acme'' ''widgets'' ''constructor'' ''closed'' 16 []]
           (Date 15) (Date 23)) = Inl TypeError"
proof -
  have run: "getDetailedStats [example_pr ''acme'' ''widgets'' ''constructor'' ''closed'' 16 []]
     (Date 15) (Date 23) =
   [\<lparr>row_owner = ''acme'', row_repo = ''widgets'', row_author = ''constructor'',
      row_created = 1, row_commented = 0, row_approved = 0\<rparr>]"
    by (simp add: run_detailed)
  show ?thesis
    unfolding run by (simp add: run_summary)
qed

end
